theory Spec2Isabelle
  imports Main "HOL-Library.Word"
begin

section \<open>Platform types and macros\<close>

text \<open>
  The firmware runs on FreeRTOS with the STM32 HAL. Ticks and millisecond counts are
  unsigned 32-bit values (\<open>TickType_t\<close>, \<open>uint32_t\<close>); subtraction of two tick counts
  wraps modulo \<open>2 ^ 32\<close>, which is what \<open>-\<close> on \<open>32 word\<close> does.
\<close>

type_synonym TickType_t = "32 word"
type_synonym uint32_t = "32 word"

datatype HAL_StatusTypeDef = HAL_OK | HAL_ERROR | HAL_BUSY | HAL_TIMEOUT

datatype BaseType_t = pdFAIL | pdPASS

datatype uart = huart2 | huart3

text \<open>
  The tick rate is not under the source tree; the firmware README documents
  \<open>#define configTICK_RATE_HZ 1000\<close> (1 ms tick). The two conversion macros are
  FreeRTOS's: \<open>pdMS_TO_TICKS\<close> multiplies and divides in \<open>TickType_t\<close>,
  \<open>pdTICKS_TO_MS\<close> widens to 64 bits before multiplying and narrows the quotient.
\<close>

definition configTICK_RATE_HZ :: nat where
  "configTICK_RATE_HZ = 1000"

definition pdMS_TO_TICKS :: "uint32_t \<Rightarrow> TickType_t" where
  "pdMS_TO_TICKS xTimeInMs = (xTimeInMs * of_nat configTICK_RATE_HZ) div 1000"

definition pdTICKS_TO_MS :: "TickType_t \<Rightarrow> uint32_t" where
  "pdTICKS_TO_MS xTicks =
     ucast (((ucast xTicks :: 64 word) * 1000) div of_nat configTICK_RATE_HZ)"


definition portMAX_DELAY :: TickType_t where
  "portMAX_DELAY = 0xFFFFFFFF"

subsection \<open>C strings\<close>

text \<open>
  A \<open>const char *\<close> argument is represented by the characters before its terminator.
  A character array is a \<open>char list\<close> of the array's size; \<open>c_str\<close> reads the C string
  stored at its start.
\<close>

definition NUL :: char where
  "NUL = CHR 0x00"

definition c_str :: "char list \<Rightarrow> string" where
  "c_str arr = takeWhile (\<lambda>c. c \<noteq> NUL) arr"

text \<open>
  \<open>strncpy(dest, src, n)\<close>: exactly \<open>n\<close> bytes of \<open>dest\<close> are written, the characters
  of \<open>src\<close> first and NUL bytes after them when \<open>src\<close> is shorter than \<open>n\<close>.
\<close>

definition strncpy :: "char list \<Rightarrow> string \<Rightarrow> nat \<Rightarrow> char list" where
  "strncpy dest src n = take n (src @ replicate n NUL) @ drop n dest"

text \<open>
  \<open>strncmp(s1, s2, n) == 0\<close> on two C strings: the first \<open>n\<close> characters agree, a
  string that ends earlier being compared by its terminator.
\<close>

fun strncmp_eq :: "string \<Rightarrow> string \<Rightarrow> nat \<Rightarrow> bool" where
  "strncmp_eq s1 s2 0 = True"
| "strncmp_eq [] [] (Suc n) = True"
| "strncmp_eq [] (y # ys) (Suc n) = False"
| "strncmp_eq (x # xs) [] (Suc n) = False"
| "strncmp_eq (x # xs) (y # ys) (Suc n) = (x = y \<and> strncmp_eq xs ys n)"

section \<open>Log lines\<close>

text \<open>
  Every diagnostic line of the firmware goes through \<open>print_message\<close>. A call is
  recorded with the line it passes; each constructor stands for the literal of the source
  named beside it (formatted arguments are kept as arguments).
\<close>

datatype log_msg =
    Log_Received string
      \<comment> \<open>"[ESP8266] <- Received: '%s'\r\n"\<close>
  | Log_PongSent
      \<comment> \<open>"[ESP8266] <- PING received, sent PONG\r\n"\<close>
  | Log_PongFailed
      \<comment> \<open>"[ESP8266] ERROR: Failed to send PONG\r\n"\<close>
  | Log_ConnectionRestored
      \<comment> \<open>"[ESP8266] (check) UART connection restored!\r\n"\<close>
  | Log_Stm32PongReceived
      \<comment> \<open>"[ESP8266] <- STM32_PONG received\r\n"\<close>
  | Log_AckFailed
      \<comment> \<open>"[LED] ERROR: Failed to send ACK to ESP8266\r\n"\<close>
  | Log_Pattern1
      \<comment> \<open>"[LED] Pattern 1: All LEDs ON\r\n"\<close>
  | Log_Pattern2
      \<comment> \<open>"[LED] Pattern 2: Different Frequency Blink\r\n"\<close>
  | Log_Pattern3
      \<comment> \<open>"[LED] Pattern 3: Same Frequency Blink\r\n"\<close>
  | Log_Pattern4
      \<comment> \<open>"[LED] Pattern 4: All LEDs OFF\r\n"\<close>
  | Log_InvalidPattern
      \<comment> \<open>"[LED] ERROR: Invalid pattern command\r\n"\<close>
  | Log_WatchdogRegisterFailed
      \<comment> \<open>"[ESP8266] Failed to register with watchdog!\r\n"\<close>
  | Log_SendingPing
      \<comment> \<open>"[ESP8266] -> Sending STM32_PING...\r\n"\<close>
  | Log_PingFailed
      \<comment> \<open>"[ESP8266] ERROR: Failed to send STM32_PING\r\n"\<close>
  | Log_NoPongAlert
      \<comment> \<open>"[ESP8266] (cross) ALERT: No STM32_PONG response!\r\n"\<close>
  | Log_ConnectionBroken
      \<comment> \<open>"[ESP8266] UART connection may be broken\r\n"\<close>
  | Log_StreamBufferWarning
      \<comment> \<open>"[ESP8266] WARNING: Stream buffer filling up, ESP8266 sending too fast!\r\n"\<close>
  | Log_RxOverflow
      \<comment> \<open>"[ESP8266] ERROR: RX buffer overflow!\r\n"\<close>
  | Log_WatchdogMaxTasks
      \<comment> \<open>"[WATCHDOG] ERROR: Max tasks reached!\r\n"\<close>
  | Log_WatchdogRegistered string "8 word" uint32_t
      \<comment> \<open>"[WATCHDOG] Registered '%s' (ID=%u, timeout=%lums)\r\n"\<close>
  | Log_WatchdogInitialized
      \<comment> \<open>"\r\n[WATCHDOG] Initialized\r\n"\<close>
  | Log_WatchdogStarted
      \<comment> \<open>"[WATCHDOG] Monitor task started\r\n"\<close>
  | Log_WatchdogAlert string "8 word" uint32_t uint32_t
      \<comment> \<open>"*** WATCHDOG ALERT ***" with task name, id, elapsed ms, timeout ms\<close>

text \<open>
  The observable actions of a task, in program order. Every blocking call carries the
  timeout (or delay) argument the source passes.
\<close>

datatype event =
    Print log_msg
      \<comment> \<open>\<open>print_message(text)\<close>, return value ignored by the caller\<close>
  | Transmit uart string uint32_t HAL_StatusTypeDef
      \<comment> \<open>\<open>HAL_UART_Transmit(huart, data, len, Timeout)\<close> and the status it returned\<close>
  | TaskDelay TickType_t
      \<comment> \<open>\<open>vTaskDelay(ticks)\<close>\<close>
  | TaskDelayUntil TickType_t
      \<comment> \<open>\<open>vTaskDelayUntil(&last_wake, period)\<close>\<close>
  | StreamBufferReceive TickType_t
      \<comment> \<open>\<open>xStreamBufferReceive(buf, &c, 1, ticks)\<close>\<close>
  | QueueSend TickType_t
      \<comment> \<open>\<open>xQueueSend(print_queue, buffer, ticks)\<close>\<close>
  | QueueReceive TickType_t
      \<comment> \<open>\<open>xQueueReceive(print_queue, buffer, ticks)\<close>\<close>
  | TimeoutCallback "8 word" string uint32_t
      \<comment> \<open>\<open>timeout_callback(id, task_name, elapsed_ms)\<close>\<close>

section \<open>Logging channel (print_task.c)\<close>

definition PRINT_MESSAGE_MAX_SIZE :: nat where
  "PRINT_MESSAGE_MAX_SIZE = 256"

definition PRINT_QUEUE_DEPTH :: nat where
  "PRINT_QUEUE_DEPTH = 5"

definition PRINT_ENQUEUE_TIMEOUT_MS :: uint32_t where
  "PRINT_ENQUEUE_TIMEOUT_MS = 100"

text \<open>
  \<open>print_queue\<close> is \<open>NULL\<close> until \<open>print_task_init\<close> creates it; afterwards it holds
  at most \<open>PRINT_QUEUE_DEPTH\<close> items of \<open>PRINT_MESSAGE_MAX_SIZE\<close> bytes each, oldest first.
\<close>

type_synonym print_queue_t = "char list list option"

definition print_task_init :: "print_queue_t" where
  "print_task_init = Some []"

text \<open>
  \<open>xQueueSend(queue, item, ticks)\<close> copies the item to the back of the queue. On a full
  queue the caller waits up to \<open>ticks\<close> for the consumer to take an item;
  \<open>freed\<close> says whether the consumer took the oldest item within that time. Without
  that the call returns \<open>errQUEUE_FULL\<close> (the value of \<open>pdFAIL\<close>) and the queue is
  as it was.
\<close>

definition xQueueSend :: "char list list \<Rightarrow> char list \<Rightarrow> bool \<Rightarrow> BaseType_t \<times> char list list" where
  "xQueueSend q item freed =
     (if length q < PRINT_QUEUE_DEPTH then (pdPASS, q @ [item])
      else if freed then (pdPASS, tl q @ [item])
      else (pdFAIL, q))"

text \<open>
  The two writes of \<open>print_message\<close> to its local \<open>buffer\<close>: \<open>strncpy\<close> of at most
  \<open>PRINT_MESSAGE_MAX_SIZE - 1\<close> characters, then the terminator in the last byte.
\<close>

definition print_buffer :: "char list \<Rightarrow> string \<Rightarrow> char list" where
  "print_buffer buffer message =
     (strncpy buffer message (PRINT_MESSAGE_MAX_SIZE - 1))[PRINT_MESSAGE_MAX_SIZE - 1 := NUL]"

text \<open>
  \<open>print_message(message)\<close>: \<open>message\<close> is \<open>None\<close> for a \<open>NULL\<close> pointer. The local
  \<open>buffer\<close> is uninitialised; all of its 256 bytes are written before the queue copies
  them, so the model starts it from NUL bytes. The result is the return value, the queue
  afterwards and the blocking call made.
\<close>

definition print_message ::
  "string option \<Rightarrow> bool \<Rightarrow> print_queue_t \<Rightarrow> BaseType_t \<times> print_queue_t \<times> event list" where
  "print_message message freed print_queue =
     (case message of
        None \<Rightarrow> (pdFAIL, print_queue, [])
      | Some msg \<Rightarrow>
          (case print_queue of
             None \<Rightarrow> (pdFAIL, print_queue, [])
           | Some q \<Rightarrow>
               (let buffer = print_buffer (replicate PRINT_MESSAGE_MAX_SIZE NUL) msg;
                    (result, q') = xQueueSend q buffer freed
                in (result, Some q', [QueueSend (pdMS_TO_TICKS PRINT_ENQUEUE_TIMEOUT_MS)]))))"

section \<open>Watchdog monitor (watchdog.c)\<close>

text \<open>A slot index or id is a \<open>uint8_t\<close>; the source's variable \<open>id\<close> is \<open>slot\<close> here.\<close>

type_synonym watchdog_id_t = "8 word"

definition WATCHDOG_MAX_TASKS :: "8 word" where
  "WATCHDOG_MAX_TASKS = 3"

definition WATCHDOG_CHECK_PERIOD_MS :: uint32_t where
  "WATCHDOG_CHECK_PERIOD_MS = 1000"

definition WATCHDOG_INVALID_ID :: watchdog_id_t where
  "WATCHDOG_INVALID_ID = 0xFF"

record watchdog_entry_t =
  task_name :: "char list"         \<comment> \<open>\<open>char task_name[16]\<close>\<close>
  timeout_ms :: uint32_t
  last_feed_tick :: TickType_t
  registered :: bool

text \<open>
  The private data of the module. \<open>timeout_callback\<close> is a function pointer; the model
  keeps whether it is set, and records a call of it as an event.
\<close>

record watchdog_state =
  watchdog_tasks :: "watchdog_entry_t list"   \<comment> \<open>\<open>watchdog_tasks[WATCHDOG_MAX_TASKS]\<close>\<close>
  num_registered :: "8 word"
  timeout_callback :: bool

text \<open>\<open>watchdog_init\<close>: \<open>memset\<close> of the table to zero, counters cleared.\<close>

definition watchdog_init :: "watchdog_state \<times> event list" where
  "watchdog_init =
     (\<lparr>watchdog_tasks = replicate (unat WATCHDOG_MAX_TASKS)
          \<lparr>task_name = replicate 16 NUL, timeout_ms = 0, last_feed_tick = 0, registered = False\<rparr>,
       num_registered = 0,
       timeout_callback = False\<rparr>,
      [Print Log_WatchdogInitialized])"

text \<open>The search loop of \<open>watchdog_register\<close>: the first slot from \<open>slot\<close> on that is not in use.\<close>

function find_free_slot :: "watchdog_entry_t list \<Rightarrow> watchdog_id_t \<Rightarrow> watchdog_id_t" where
  "find_free_slot tasks slot =
     (if slot < WATCHDOG_MAX_TASKS
      then (if \<not> registered (tasks ! unat slot) then slot else find_free_slot tasks (slot + 1))
      else slot)"
  by pat_completeness auto
termination
  by (relation "measure (\<lambda>(tasks, slot). 3 - unat slot)")
     (auto simp: WATCHDOG_MAX_TASKS_def word_less_nat_alt unat_word_ariths)

text \<open>
  \<open>watchdog_register(task_name, timeout_ms)\<close>; \<open>tick\<close> is what \<open>xTaskGetTickCount()\<close>
  returns inside the critical section.
\<close>

definition watchdog_register ::
  "string \<Rightarrow> uint32_t \<Rightarrow> TickType_t \<Rightarrow> watchdog_state \<Rightarrow> watchdog_id_t \<times> watchdog_state \<times> event list" where
  "watchdog_register name timeout tick s =
     (if num_registered s \<ge> WATCHDOG_MAX_TASKS
      then (WATCHDOG_INVALID_ID, s, [Print Log_WatchdogMaxTasks])
      else
        (let slot = find_free_slot (watchdog_tasks s) 0 in
         if slot \<ge> WATCHDOG_MAX_TASKS then (WATCHDOG_INVALID_ID, s, [])
         else
           (let e = watchdog_tasks s ! unat slot;
                e' = e\<lparr>task_name := (strncpy (task_name e) name (16 - 1))[16 - 1 := NUL],
                       timeout_ms := timeout,
                       last_feed_tick := tick,
                       registered := True\<rparr>
            in (slot,
                s\<lparr>watchdog_tasks := (watchdog_tasks s)[unat slot := e'],
                  num_registered := num_registered s + 1\<rparr>,
                [Print (Log_WatchdogRegistered name slot timeout)]))))"

text \<open>\<open>watchdog_feed(slot)\<close>; \<open>tick\<close> is the tick count read in the critical section.\<close>

definition watchdog_feed :: "watchdog_id_t \<Rightarrow> TickType_t \<Rightarrow> watchdog_state \<Rightarrow> watchdog_state" where
  "watchdog_feed slot tick s =
     (if slot \<ge> WATCHDOG_MAX_TASKS \<or> \<not> registered (watchdog_tasks s ! unat slot) then s
      else s\<lparr>watchdog_tasks :=
               (watchdog_tasks s)[unat slot := (watchdog_tasks s ! unat slot)\<lparr>last_feed_tick := tick\<rparr>]\<rparr>)"

text \<open>
  The same function with its accesses to \<open>watchdog_tasks\<close> checked against the bounds
  of the array. \<open>entry_at tasks i\<close> is the access \<open>watchdog_tasks[i]\<close>: outside the
  array the C program has no defined behaviour, which is \<open>None\<close> here. The operands of
  \<open>||\<close> are evaluated in the order of the source, so the table is read only for an id
  that passed the range test.
\<close>

definition entry_at :: "watchdog_entry_t list \<Rightarrow> nat \<Rightarrow> watchdog_entry_t option" where
  "entry_at tasks i = (if i < length tasks then Some (tasks ! i) else None)"

definition watchdog_feed_checked ::
  "watchdog_id_t \<Rightarrow> TickType_t \<Rightarrow> watchdog_state \<Rightarrow> watchdog_state option" where
  "watchdog_feed_checked slot tick s =
     (if slot \<ge> WATCHDOG_MAX_TASKS then Some s
      else
        (case entry_at (watchdog_tasks s) (unat slot) of
           None \<Rightarrow> None
         | Some e \<Rightarrow>
             if \<not> registered e then Some s
             else Some (s\<lparr>watchdog_tasks :=
                            (watchdog_tasks s)[unat slot := e\<lparr>last_feed_tick := tick\<rparr>]\<rparr>)))"

definition watchdog_set_callback :: "bool \<Rightarrow> watchdog_state \<Rightarrow> watchdog_state" where
  "watchdog_set_callback callback s = s\<lparr>timeout_callback := callback\<rparr>"

text \<open>
  The body of the \<open>for\<close> loop of \<open>watchdog_task\<close> for one slot, at tick count
  \<open>now\<close>: an entry whose elapsed time exceeds its timeout raises one alert (the
  callback when set, the printed warning otherwise) and has its timer reset to \<open>now\<close>.
\<close>

definition check_entry ::
  "watchdog_id_t \<Rightarrow> TickType_t \<Rightarrow> watchdog_state \<Rightarrow> watchdog_state \<times> event list" where
  "check_entry slot now s =
     (let e = watchdog_tasks s ! unat slot in
      if \<not> registered e then (s, [])
      else
        (let elapsed_ticks = now - last_feed_tick e;
             elapsed_ms = pdTICKS_TO_MS elapsed_ticks
         in if elapsed_ms > timeout_ms e then
              (s\<lparr>watchdog_tasks := (watchdog_tasks s)[unat slot := e\<lparr>last_feed_tick := now\<rparr>]\<rparr>,
               [if timeout_callback s
                then TimeoutCallback slot (c_str (task_name e)) elapsed_ms
                else Print (Log_WatchdogAlert (c_str (task_name e)) slot elapsed_ms
                              (timeout_ms e))])
            else (s, [])))"

text \<open>The loop itself, from slot \<open>slot\<close> on.\<close>

function watchdog_scan ::
  "watchdog_id_t \<Rightarrow> TickType_t \<Rightarrow> watchdog_state \<Rightarrow> watchdog_state \<times> event list" where
  "watchdog_scan slot now s =
     (if slot < WATCHDOG_MAX_TASKS then
        (let (s', ev) = check_entry slot now s;
             (s'', evs) = watchdog_scan (slot + 1) now s'
         in (s'', ev @ evs))
      else (s, []))"
  by pat_completeness auto
termination
  by (relation "measure (\<lambda>(slot, now, s). 3 - unat slot)")
     (auto simp: WATCHDOG_MAX_TASKS_def word_less_nat_alt unat_word_ariths)

text \<open>
  One pass of the \<open>while (1)\<close> loop of \<open>watchdog_task\<close>: sleep until the next period,
  read the tick count \<open>now\<close>, scan the table.
\<close>

definition watchdog_task_iteration ::
  "TickType_t \<Rightarrow> watchdog_state \<Rightarrow> watchdog_state \<times> event list" where
  "watchdog_task_iteration now s =
     (let (s', evs) = watchdog_scan 0 now s
      in (s', TaskDelayUntil (pdMS_TO_TICKS WATCHDOG_CHECK_PERIOD_MS) # evs))"




text \<open>
  The watchdog task alone, pass after pass, at the tick counts given: what each pass
  logs. No task feeds its entry in between.
\<close>

fun watchdog_run :: "TickType_t list \<Rightarrow> watchdog_state \<Rightarrow> watchdog_state \<times> event list list" where
  "watchdog_run [] s = (s, [])"
| "watchdog_run (now # nows) s =
     (let (s', evs) = watchdog_task_iteration now s;
          (s'', rest) = watchdog_run nows s'
      in (s'', evs # rest))"

text \<open>The alerts of a pass that name a given slot, by callback or by printed warning.\<close>

fun is_alert_for :: "watchdog_id_t \<Rightarrow> event \<Rightarrow> bool" where
  "is_alert_for slot (TimeoutCallback i name elapsed) = (i = slot)"
| "is_alert_for slot (Print (Log_WatchdogAlert name i elapsed timeout)) = (i = slot)"
| "is_alert_for slot ev = False"

definition alerts_for :: "watchdog_id_t \<Rightarrow> event list \<Rightarrow> nat" where
  "alerts_for slot evs = length (filter (is_alert_for slot) evs)"

text \<open>The tick counts of \<open>n\<close> successive passes, one period apart, after tick count \<open>t\<close>.\<close>

fun periodic :: "TickType_t \<Rightarrow> TickType_t \<Rightarrow> nat \<Rightarrow> TickType_t list" where
  "periodic t period 0 = []"
| "periodic t period (Suc n) = (t + period) # periodic (t + period) period n"

section \<open>LED patterns (led_effects.c)\<close>

datatype LED_Pattern_t = LED_PATTERN_NONE | LED_PATTERN_1 | LED_PATTERN_2 | LED_PATTERN_3

section \<open>Communication task (esp8266_comm_task.c)\<close>

definition UART_RX_BUFFER_SIZE :: nat where
  "UART_RX_BUFFER_SIZE = 64"

definition UART_STREAM_BUFFER_SIZE :: nat where
  "UART_STREAM_BUFFER_SIZE = 128"

definition STM32_PING_INTERVAL_MS :: uint32_t where
  "STM32_PING_INTERVAL_MS = 10000"

definition STM32_PING_JITTER_MS :: uint32_t where
  "STM32_PING_JITTER_MS = 2000"

definition STM32_PING_TIMEOUT_MS :: uint32_t where
  "STM32_PING_TIMEOUT_MS = 1000"

definition CRLF :: string where
  "CRLF = [CHR 0x0D, CHR 0x0A]"

text \<open>
  The file-scope and function-scope statics of the task, with \<open>current_pattern\<close> of
  led_effects.c, which \<open>led_effects_set_pattern\<close> writes. \<open>tx_calls\<close> is not in the
  source: it counts the calls of \<open>HAL_UART_Transmit\<close> on UART2 made so far, so that
  the environment can answer each call with its own status.
\<close>

record comm_state =
  rx_buffer :: "char list"            \<comment> \<open>\<open>char rx_buffer[UART_RX_BUFFER_SIZE]\<close>\<close>
  rx_index :: "16 word"
  last_ping_sent :: TickType_t
  last_pong_received :: TickType_t
  waiting_for_pong :: bool
  uart_connection_ok :: bool
  ping_random_seed :: uint32_t
  next_ping_jitter :: uint32_t
  buffer_warning_shown :: bool
  current_pattern :: LED_Pattern_t
  tx_calls :: nat

text \<open>The initial values of the statics (zero-initialised unless the source says otherwise).\<close>

definition comm_init :: comm_state where
  "comm_init =
     \<lparr>rx_buffer = replicate UART_RX_BUFFER_SIZE NUL,
      rx_index = 0,
      last_ping_sent = 0,
      last_pong_received = 0,
      waiting_for_pong = False,
      uart_connection_ok = True,
      ping_random_seed = 0,
      next_ping_jitter = 0,
      buffer_warning_shown = False,
      current_pattern = LED_PATTERN_NONE,
      tx_calls = 0\<rparr>"

text \<open>
  The environment of the task: \<open>hal k\<close> is the status the HAL returns to the \<open>k\<close>-th
  call of \<open>HAL_UART_Transmit\<close> on UART2.
\<close>

type_synonym hal_env = "nat \<Rightarrow> HAL_StatusTypeDef"

definition get_random_jitter :: "uint32_t \<Rightarrow> comm_state \<Rightarrow> uint32_t \<times> comm_state" where
  "get_random_jitter maxv s =
     (let seed = ping_random_seed s * 1664525 + 1013904223
      in (seed mod maxv, s\<lparr>ping_random_seed := seed\<rparr>))"

text \<open>One call \<open>HAL_UART_Transmit(&huart2, data, len, timeout)\<close>.\<close>

definition uart2_transmit ::
  "hal_env \<Rightarrow> string \<Rightarrow> uint32_t \<Rightarrow> comm_state \<Rightarrow> HAL_StatusTypeDef \<times> comm_state \<times> event list" where
  "uart2_transmit hal data timeout s =
     (let status = hal (tx_calls s)
      in (status, s\<lparr>tx_calls := tx_calls s + 1\<rparr>, [Transmit huart2 data timeout status]))"

text \<open>
  The retry loop, written three times in the source with a different frame each time:
  \<^verbatim>\<open>
  for (int retry = 0; retry < 3; retry++) {
      status = HAL_UART_Transmit(&huart2, frame, len, 100);
      if (status == HAL_OK) break;
      vTaskDelay(pdMS_TO_TICKS(10));
  }\<close>
  \<open>status\<close> is the loop's variable; it is uninitialised before the first pass, which
  always runs.
\<close>

function transmit_retry ::
  "hal_env \<Rightarrow> string \<Rightarrow> int \<Rightarrow> HAL_StatusTypeDef \<Rightarrow> comm_state \<Rightarrow>
   HAL_StatusTypeDef \<times> comm_state \<times> event list" where
  "transmit_retry hal frame retry status s =
     (if retry < 3 then
        (let (status', s', ev) = uart2_transmit hal frame 100 s
         in if status' = HAL_OK then (status', s', ev)
            else (let (status'', s'', evs) = transmit_retry hal frame (retry + 1) status' s'
                  in (status'', s'', ev @ [TaskDelay (pdMS_TO_TICKS 10)] @ evs)))
      else (status, s, []))"
  by pat_completeness auto
termination
  by (relation "measure (\<lambda>(hal, frame, retry, status, s). nat (3 - retry))") auto

definition send_with_retry ::
  "hal_env \<Rightarrow> string \<Rightarrow> comm_state \<Rightarrow> HAL_StatusTypeDef \<times> comm_state \<times> event list" where
  "send_with_retry hal frame s = transmit_retry hal frame 0 HAL_ERROR s"

text \<open>
  \<open>led_effects_set_pattern(pattern)\<close> records the pattern in \<open>current_pattern\<close> and
  drives the LED pins and timers, which are outside this model.
\<close>

definition led_effects_set_pattern :: "LED_Pattern_t \<Rightarrow> comm_state \<Rightarrow> comm_state" where
  "led_effects_set_pattern pattern s = s\<lparr>current_pattern := pattern\<rparr>"

text \<open>
  The \<open>switch (cmd)\<close> of \<open>process_led_command\<close>: the state after the pattern action,
  \<open>ack_msg\<close> and \<open>log_msg\<close>.
\<close>

definition led_switch :: "char \<Rightarrow> comm_state \<Rightarrow> comm_state \<times> string \<times> log_msg" where
  "led_switch cmd s =
     (if cmd = CHR ''1'' then
        (led_effects_set_pattern LED_PATTERN_1 s, ''OK:Pattern1'' @ CRLF, Log_Pattern1)
      else if cmd = CHR ''2'' then
        (led_effects_set_pattern LED_PATTERN_2 s, ''OK:Pattern2'' @ CRLF, Log_Pattern2)
      else if cmd = CHR ''3'' then
        (led_effects_set_pattern LED_PATTERN_3 s, ''OK:Pattern3'' @ CRLF, Log_Pattern3)
      else if cmd = CHR ''4'' then
        (led_effects_set_pattern LED_PATTERN_NONE s, ''OK:AllOFF'' @ CRLF, Log_Pattern4)
      else (s, ''ERROR:InvalidPattern'' @ CRLF, Log_InvalidPattern))"

text \<open>
  \<open>process_led_command(line)\<close>; \<open>tick\<close> is what \<open>xTaskGetTickCount()\<close> returns in
  the \<open>STM32_PONG\<close> branch. \<open>line[8]\<close> is the terminator when the line is exactly
  \<open>LED_CMD:\<close>.
\<close>

definition process_led_command ::
  "hal_env \<Rightarrow> TickType_t \<Rightarrow> string \<Rightarrow> comm_state \<Rightarrow> comm_state \<times> event list" where
  "process_led_command hal tick line s =
     (if strncmp_eq line ''PING'' 4 then
        (let (status, s', evs) = send_with_retry hal (''PONG'' @ CRLF) s
         in (s', [Print (Log_Received line)] @ evs @
                 [Print (if status = HAL_OK then Log_PongSent else Log_PongFailed)]))
      else if strncmp_eq line ''STM32_PONG'' 10 then
        (let restored = (if \<not> uart_connection_ok s then [Print Log_ConnectionRestored] else []);
             s' = (if \<not> uart_connection_ok s then s\<lparr>uart_connection_ok := True\<rparr> else s);
             s' = s'\<lparr>waiting_for_pong := False, last_pong_received := tick\<rparr>
         in (s', [Print (Log_Received line)] @ restored @ [Print Log_Stm32PongReceived]))
      else if strncmp_eq line ''LED_CMD:'' 8 then
        (let cmd = (line @ [NUL]) ! 8;
             (s', ack_msg, log_msg) = led_switch cmd s;
             (status, s'', evs) = send_with_retry hal ack_msg s'
         in (s'', [Print (Log_Received line)] @ evs @
                  (if status \<noteq> HAL_OK then [Print Log_AckFailed] else []) @
                  [Print log_msg]))
      else (s, [Print (Log_Received line)]))"

text \<open>
  The per-byte block at the end of the task loop (the line assembler), for a received
  byte \<open>c\<close>.
\<close>

definition process_char ::
  "hal_env \<Rightarrow> TickType_t \<Rightarrow> char \<Rightarrow> comm_state \<Rightarrow> comm_state \<times> event list" where
  "process_char hal tick c s =
     (if c = CHR 0x0A \<or> c = CHR 0x0D then
        (if rx_index s > 0 then
           (let s1 = s\<lparr>rx_buffer := (rx_buffer s)[unat (rx_index s) := NUL]\<rparr>;
                (s2, evs) = process_led_command hal tick (c_str (rx_buffer s1)) s1
            in (s2\<lparr>rx_index := 0\<rparr>, evs))
         else (s, []))
      else if unat (rx_index s) \<ge> UART_RX_BUFFER_SIZE - 1 then
        (let (status, s1, ev) = uart2_transmit hal (''ERROR:BufferOverflow'' @ CRLF) 100
                                  (s\<lparr>rx_index := 0\<rparr>)
         in (s1, ev @ [Print Log_RxOverflow]))
      else
        (s\<lparr>rx_buffer := (rx_buffer s)[unat (rx_index s) := c],
           rx_index := rx_index s + 1\<rparr>, []))"

text \<open>
  What one pass of the task loop reads from outside: the tick count at the top of the
  loop, the byte from the stream buffer (\<open>None\<close> when the 100-tick wait ran out), the
  number of bytes still in the stream buffer after the read, and the tick counts read by
  \<open>watchdog_feed\<close> and by \<open>process_led_command\<close>.
\<close>

record comm_input =
  loop_tick :: TickType_t
  received :: "char option"
  bytes_available :: nat
  feed_tick :: TickType_t
  line_tick :: TickType_t

text \<open>
  The ping block at the top of the loop, in its three steps: the first jitter (drawn while
  \<open>last_ping_sent\<close> is still 0), the test whether a ping is due, and the send.
\<close>

definition first_jitter :: "comm_state \<Rightarrow> comm_state" where
  "first_jitter s =
     (if last_ping_sent s = 0
      then (let (j, s') = get_random_jitter STM32_PING_JITTER_MS s in s'\<lparr>next_ping_jitter := j\<rparr>)
      else s)"

definition ping_due :: "TickType_t \<Rightarrow> comm_state \<Rightarrow> bool" where
  "ping_due now s =
     (let ping_interval_with_jitter = STM32_PING_INTERVAL_MS + next_ping_jitter s
      in now - last_ping_sent s \<ge> pdMS_TO_TICKS ping_interval_with_jitter)"

definition ping_send :: "hal_env \<Rightarrow> TickType_t \<Rightarrow> comm_state \<Rightarrow> comm_state \<times> event list" where
  "ping_send hal now s =
     (let s1 = first_jitter s
      in if ping_due now s1 then
           (let (status, s2, evs) = send_with_retry hal (''STM32_PING'' @ CRLF) s1
            in if status = HAL_OK then
                 (let s3 = s2\<lparr>last_ping_sent := now, waiting_for_pong := True\<rparr>;
                      (j, s4) = get_random_jitter STM32_PING_JITTER_MS s3
                  in (s4\<lparr>next_ping_jitter := j\<rparr>, evs @ [Print Log_SendingPing]))
               else (s2, evs @ [Print Log_PingFailed]))
         else (s1, []))"

text \<open>The ping timeout check.\<close>

definition ping_timeout_check :: "TickType_t \<Rightarrow> comm_state \<Rightarrow> comm_state \<times> event list" where
  "ping_timeout_check now s =
     (if waiting_for_pong s \<and> now - last_ping_sent s \<ge> pdMS_TO_TICKS STM32_PING_TIMEOUT_MS then
        (if uart_connection_ok s then
           (s\<lparr>uart_connection_ok := False, waiting_for_pong := False\<rparr>,
            [Print Log_NoPongAlert, Print Log_ConnectionBroken])
         else (s\<lparr>waiting_for_pong := False\<rparr>, []))
      else (s, []))"

text \<open>The stream-buffer occupancy diagnostic, after a byte was received.\<close>

definition buffer_warning :: "nat \<Rightarrow> comm_state \<Rightarrow> comm_state \<times> event list" where
  "buffer_warning avail s =
     (if avail > 64 then
        (if \<not> buffer_warning_shown s
         then (s\<lparr>buffer_warning_shown := True\<rparr>, [Print Log_StreamBufferWarning])
         else (s, []))
      else (s, []))"

text \<open>
  One pass of the \<open>while (1)\<close> loop of \<open>esp8266_comm_task_handler\<close>, on the task's
  statics and the watchdog table; \<open>wd_id\<close> is the id the task got at registration.
\<close>

definition comm_task_iteration ::
  "hal_env \<Rightarrow> watchdog_id_t \<Rightarrow> comm_input \<Rightarrow> comm_state \<times> watchdog_state \<Rightarrow>
   (comm_state \<times> watchdog_state) \<times> event list" where
  "comm_task_iteration hal wd_id inp sw =
     (let (s, wd) = sw;
          (s1, ev_ping) = ping_send hal (loop_tick inp) s;
          (s2, ev_timeout) = ping_timeout_check (loop_tick inp) s1;
          ev_rx = [StreamBufferReceive (pdMS_TO_TICKS 100)];
          wd' = (if wd_id \<noteq> WATCHDOG_INVALID_ID then watchdog_feed wd_id (feed_tick inp) wd
                 else wd)
      in case received inp of
           None \<Rightarrow> ((s2, wd'), ev_ping @ ev_timeout @ ev_rx)
         | Some received_char \<Rightarrow>
             (let (s3, ev_warn) = buffer_warning (bytes_available inp) s2;
                  (s4, ev_char) = process_char hal (line_tick inp) received_char s3
              in ((s4, wd'), ev_ping @ ev_timeout @ ev_rx @ ev_warn @ ev_char)))"



text \<open>The loop, run over a list of inputs, one per pass.\<close>

fun comm_task_run ::
  "hal_env \<Rightarrow> watchdog_id_t \<Rightarrow> comm_input list \<Rightarrow> comm_state \<times> watchdog_state \<Rightarrow>
   (comm_state \<times> watchdog_state) \<times> event list" where
  "comm_task_run hal wd_id [] sw = (sw, [])"
| "comm_task_run hal wd_id (inp # inps) sw =
     (let (sw', evs) = comm_task_iteration hal wd_id inp sw;
          (sw'', evs') = comm_task_run hal wd_id inps sw'
      in (sw'', evs @ evs'))"

section \<open>The line assembler on a byte sequence\<close>

text \<open>
  The per-byte block run over a sequence of received bytes, each with the tick count that
  \<open>process_led_command\<close> would read if the byte completes a line.
\<close>

fun feed_bytes ::
  "hal_env \<Rightarrow> (char \<times> TickType_t) list \<Rightarrow> comm_state \<Rightarrow> comm_state \<times> event list" where
  "feed_bytes hal [] s = (s, [])"
| "feed_bytes hal ((c, tick) # rest) s =
     (let (s', evs) = process_char hal tick c s;
          (s'', evs') = feed_bytes hal rest s'
      in (s'', evs @ evs'))"

text \<open>
  What the assembler yields, read off the trace: a line is what \<open>process_led_command\<close>
  receives (its first action logs it), an overflow is reported by its log line.
\<close>

datatype asm_out = Line string | Overflow

fun assembler_output :: "event list \<Rightarrow> asm_out list" where
  "assembler_output [] = []"
| "assembler_output (Print (Log_Received line) # evs) = Line line # assembler_output evs"
| "assembler_output (Print Log_RxOverflow # evs) = Overflow # assembler_output evs"
| "assembler_output (ev # evs) = assembler_output evs"

text \<open>
  The same block on the pending characters alone (the first \<open>rx_index\<close> bytes of
  \<open>rx_buffer\<close>), without the rest of the state.
\<close>

fun asm :: "string \<Rightarrow> string \<Rightarrow> asm_out list" where
  "asm pending [] = []"
| "asm pending (c # cs) =
     (if c = CHR 0x0A \<or> c = CHR 0x0D then
        (if pending = [] then asm [] cs else Line (c_str pending) # asm [] cs)
      else if length pending \<ge> 63 then Overflow # asm [] cs
      else asm (pending @ [c]) cs)"

text \<open>
  The input split on \<open>\n\<close> and \<open>\r\<close>: the segments that a terminator ends, in
  order (empty ones included), and the unterminated rest. \<open>cur\<close> is the segment being
  read.
\<close>

fun split_acc :: "string \<Rightarrow> string \<Rightarrow> string list \<times> string" where
  "split_acc cur [] = ([], cur)"
| "split_acc cur (c # cs) =
     (if c = CHR 0x0A \<or> c = CHR 0x0D
      then (let (segs, rest) = split_acc [] cs in (cur # segs, rest))
      else split_acc (cur @ [c]) cs)"

definition split_lines :: "string \<Rightarrow> string list \<times> string" where
  "split_lines bytes = split_acc [] bytes"

text \<open>
  What a terminated segment yields: one overflow for every 64 bytes of it, and the bytes
  after the last overflow, when there are any, as a line.
\<close>

definition segment_output :: "string \<Rightarrow> asm_out list" where
  "segment_output seg =
     replicate (length seg div 64) Overflow @
     (if length seg mod 64 = 0 then []
      else [Line (c_str (drop (64 * (length seg div 64)) seg))])"

section \<open>Reading traces\<close>

text \<open>The frames handed to UART2, attempt by attempt, and those the HAL accepted.\<close>

fun tx_frames :: "event list \<Rightarrow> string list" where
  "tx_frames [] = []"
| "tx_frames (Transmit huart2 frame timeout status # evs) = frame # tx_frames evs"
| "tx_frames (ev # evs) = tx_frames evs"

fun sent_frames :: "event list \<Rightarrow> string list" where
  "sent_frames [] = []"
| "sent_frames (Transmit huart2 frame timeout HAL_OK # evs) = frame # sent_frames evs"
| "sent_frames (ev # evs) = sent_frames evs"

text \<open>Three failed attempts on a frame, each followed by the retry delay.\<close>

definition failed_attempts :: "hal_env \<Rightarrow> string \<Rightarrow> nat \<Rightarrow> event list" where
  "failed_attempts hal frame n =
     [Transmit huart2 frame 100 (hal n), TaskDelay 10,
      Transmit huart2 frame 100 (hal (n + 1)), TaskDelay 10,
      Transmit huart2 frame 100 (hal (n + 2)), TaskDelay 10]"

text \<open>
  The link-health transitions a trace logs, in order: \<open>False\<close> for the alert that the
  link went down (\<open>No STM32_PONG response\<close>), \<open>True\<close> for the recovery
  (\<open>UART connection restored\<close>).
\<close>

fun link_events :: "event list \<Rightarrow> bool list" where
  "link_events [] = []"
| "link_events (Print Log_NoPongAlert # evs) = False # link_events evs"
| "link_events (Print Log_ConnectionRestored # evs) = True # link_events evs"
| "link_events (ev # evs) = link_events evs"

text \<open>
  A sequence of logged transitions is edge-triggered from the flag value \<open>ok\<close> when
  every transition goes to the value the flag does not have at that moment.
\<close>

fun edge_triggered :: "bool \<Rightarrow> bool list \<Rightarrow> bool" where
  "edge_triggered ok [] = True"
| "edge_triggered ok (up # rest) = (up = (\<not> ok) \<and> edge_triggered up rest)"

definition flag_after :: "bool \<Rightarrow> bool list \<Rightarrow> bool" where
  "flag_after ok transitions = (if transitions = [] then ok else last transitions)"

text \<open>
  What a pass of the task loop meets, read from its input and the statics at its start.
  \<open>probe_overdue\<close>: when the pass comes to its timeout check, a reply is awaited and
  the timeout (1000 ticks) has passed since the probe was sent. \<open>pong_received\<close>: the byte
  the pass reads ends a line that is not empty and starts with \<open>STM32_PONG\<close>.
\<close>

definition probe_overdue :: "hal_env \<Rightarrow> comm_input \<Rightarrow> comm_state \<Rightarrow> bool" where
  "probe_overdue hal inp s =
     (let s1 = fst (ping_send hal (loop_tick inp) s)
      in waiting_for_pong s1 \<and>
         loop_tick inp - last_ping_sent s1 \<ge> pdMS_TO_TICKS STM32_PING_TIMEOUT_MS)"

definition pong_received :: "comm_input \<Rightarrow> comm_state \<Rightarrow> bool" where
  "pong_received inp s =
     (case received inp of
        None \<Rightarrow> False
      | Some c \<Rightarrow>
          (c = CHR 0x0A \<or> c = CHR 0x0D) \<and> rx_index s > 0 \<and>
          take 10 (c_str ((rx_buffer s)[unat (rx_index s) := NUL])) = ''STM32_PONG'')"

text \<open>The passes of a run of the loop: each input with the statics the pass starts from.\<close>

fun loop_passes ::
  "hal_env \<Rightarrow> watchdog_id_t \<Rightarrow> comm_input list \<Rightarrow> comm_state \<times> watchdog_state \<Rightarrow>
   (comm_input \<times> comm_state) list" where
  "loop_passes hal wd_id [] sw = []"
| "loop_passes hal wd_id (inp # inps) sw =
     (inp, fst sw) # loop_passes hal wd_id inps (fst (comm_task_iteration hal wd_id inp sw))"

text \<open>The pass received a byte and found more than 64 bytes still in the stream buffer.\<close>

definition above_high_water :: "comm_input \<Rightarrow> bool" where
  "above_high_water inp = (received inp \<noteq> None \<and> bytes_available inp > 64)"

text \<open>
  The timeout, delay or period argument of a blocking call, and whether it bounds the
  wait: \<open>0xFFFFFFFF\<close> (\<open>portMAX_DELAY\<close>, \<open>HAL_MAX_DELAY\<close>) asks for a wait without
  limit. A \<open>print_message\<close> call waits in its own \<open>xQueueSend\<close>, which its own trace
  records.
\<close>

fun timeout_arg :: "event \<Rightarrow> uint32_t option" where
  "timeout_arg (Transmit u frame timeout status) = Some timeout"
| "timeout_arg (TaskDelay ticks) = Some ticks"
| "timeout_arg (TaskDelayUntil ticks) = Some ticks"
| "timeout_arg (StreamBufferReceive ticks) = Some ticks"
| "timeout_arg (QueueSend ticks) = Some ticks"
| "timeout_arg (QueueReceive ticks) = Some ticks"
| "timeout_arg (Print msg) = None"
| "timeout_arg (TimeoutCallback i name elapsed) = None"



text \<open>
  The longest a call can block when its time limit is kept, in ticks (a tick is a
  millisecond at \<open>configTICK_RATE_HZ\<close>, the unit of the HAL's timeouts). A
  \<open>print_message\<close> call blocks in its \<open>xQueueSend\<close> only, for up to
  \<open>PRINT_ENQUEUE_TIMEOUT_MS\<close>. There is no limit (\<open>None\<close>) for a call made with
  \<open>0xFFFFFFFF\<close>, nor for the watchdog's callback, which is not code of this firmware.
\<close>

fun time_limit :: "event \<Rightarrow> nat option" where
  "time_limit (Print msg) = Some (unat (pdMS_TO_TICKS PRINT_ENQUEUE_TIMEOUT_MS))"
| "time_limit (TimeoutCallback i name elapsed) = None"
| "time_limit ev =
     (case timeout_arg ev of
        Some t \<Rightarrow> if t = portMAX_DELAY then None else Some (unat t)
      | None \<Rightarrow> None)"

text \<open>
  A task that makes the calls of a trace has them all behind it within \<open>n\<close> ticks of
  blocking: every call has a time limit and the limits add up to \<open>n\<close> at most.
\<close>

definition returns_within :: "nat \<Rightarrow> event list \<Rightarrow> bool" where
  "returns_within n evs \<longleftrightarrow>
     list_all (\<lambda>ev. time_limit ev \<noteq> None) evs \<and>
     sum_list (map (\<lambda>ev. case time_limit ev of Some t \<Rightarrow> t | None \<Rightarrow> 0) evs) \<le> n"

section \<open>Well-formed watchdog tables\<close>

text \<open>
  What \<open>watchdog_init\<close> establishes and every operation of the module keeps: the table
  has its three slots, the counter equals the number of slots in use, and every name
  field is a 16-byte array.
\<close>

definition watchdog_table_ok :: "watchdog_state \<Rightarrow> bool" where
  "watchdog_table_ok s \<longleftrightarrow>
     length (watchdog_tasks s) = unat WATCHDOG_MAX_TASKS \<and>
     unat (num_registered s) = length (filter registered (watchdog_tasks s)) \<and>
     list_all (\<lambda>e. length (task_name e) = 16) (watchdog_tasks s)"

section \<open>Properties\<close>

subsection \<open>Conversions and C strings\<close>

lemma pdTICKS_TO_MS_ident: "pdTICKS_TO_MS x = x"
proof -
  let ?w = "ucast x :: 64 word"
  have b: "unat x < 2 ^ 32"
    using unsigned_less [of x, where 'a = nat] by simp
  then have b64: "unat x < 2 ^ 64" by simp
  have u: "unat ?w = unat x"
    using b64 by (simp add: unsigned_ucast_eq take_bit_nat_eq_self)
  have m: "unat (?w * 1000) = unat x * 1000"
    using b by (simp add: unat_word_ariths u)
  have "unat ((?w * 1000) div 1000) = unat x"
    by (simp add: unat_div m)
  then have "(?w * 1000) div 1000 = ?w"
    by (simp add: word_unat_eq_iff u)
  then have "ucast (((ucast x :: 64 word) * 1000) div 1000) = (ucast ?w :: 32 word)"
    by simp
  also have "\<dots> = x"
    using b b64
    by (simp add: word_unat_eq_iff unsigned_ucast_eq unsigned_take_bit_eq take_bit_nat_eq_self)
  finally show ?thesis
    by (simp add: pdTICKS_TO_MS_def configTICK_RATE_HZ_def)
qed

lemma pdMS_TO_TICKS_enqueue: "pdMS_TO_TICKS PRINT_ENQUEUE_TIMEOUT_MS = 100"
  by (simp add: pdMS_TO_TICKS_def configTICK_RATE_HZ_def PRINT_ENQUEUE_TIMEOUT_MS_def)

lemma c_str_take: "c_str (take n xs) = take n (c_str xs)"
  unfolding c_str_def
  by (induction xs arbitrary: n) (auto simp: take_Cons split: nat.splits)

lemma c_str_pad: "0 < k \<Longrightarrow> c_str (xs @ replicate k NUL) = c_str xs"
  unfolding c_str_def
  by (induction xs) (auto simp: gr0_conv_Suc)

subsection \<open>Logging channel\<close>

lemma print_buffer_eq:
  "length buffer = PRINT_MESSAGE_MAX_SIZE \<Longrightarrow>
   print_buffer buffer msg = take 255 msg @ replicate (256 - min (length msg) 255) NUL"
  by (auto simp: print_buffer_def strncpy_def PRINT_MESSAGE_MAX_SIZE_def
      nth_append list_eq_iff_nth_eq nth_list_update min_def)

text \<open>
  C10 (as amended). With a \<open>NULL\<close> message or no queue, \<open>print_message\<close> returns
  \<open>pdFAIL\<close> and leaves the queue alone. Otherwise, when the queue has a free slot or the
  consumer frees one within the 100-tick enqueue timeout, it enqueues a 256-byte item
  holding the first \<open>min (length msg) 255\<close> characters of the message followed by NUL
  bytes, and returns \<open>pdPASS\<close>: a longer message is cut to 255 characters without any
  error indication. When the queue stays full, it returns \<open>pdFAIL\<close> and the queue is
  unchanged.
\<close>

theorem print_message_enqueues_truncated:
  "print_message None freed pq = (pdFAIL, pq, []) \<and>
   print_message (Some msg) freed None = (pdFAIL, None, []) \<and>
   print_message (Some msg) freed (Some q) =
     (if length q < PRINT_QUEUE_DEPTH \<or> freed
      then (pdPASS,
            Some ((if length q < PRINT_QUEUE_DEPTH then q else tl q)
                  @ [take 255 msg @ replicate (256 - min (length msg) 255) NUL]),
            [QueueSend (pdMS_TO_TICKS PRINT_ENQUEUE_TIMEOUT_MS)])
      else (pdFAIL, Some q, [QueueSend (pdMS_TO_TICKS PRINT_ENQUEUE_TIMEOUT_MS)])) \<and>
   c_str (take 255 msg @ replicate (256 - min (length msg) 255) NUL) = take 255 (c_str msg)"
  by (simp add: print_message_def xQueueSend_def print_buffer_eq PRINT_MESSAGE_MAX_SIZE_def
      c_str_pad c_str_take)

theorem print_message_enqueues_truncated_witness:
  "print_message (Some (replicate 300 CHR ''A'')) False (Some []) =
     (pdPASS, Some [replicate 255 CHR ''A'' @ [NUL]], [QueueSend 100]) \<and>
   print_message (Some ''hi'') True (Some (replicate 5 [])) =
     (pdPASS, Some (replicate 4 [] @ [''hi'' @ replicate 254 NUL]), [QueueSend 100])"
  using print_message_enqueues_truncated [of False "Some []" "replicate 300 CHR ''A''" "[]"]
    print_message_enqueues_truncated [of True "Some []" "''hi''" "replicate 5 []"]
  by (simp add: PRINT_QUEUE_DEPTH_def pdMS_TO_TICKS_enqueue numeral_eq_Suc)

text \<open>
  The claim as first stated promises the enqueue for every non-\<open>NULL\<close> message once the
  queue exists. On a queue that holds five messages and is not drained within the timeout
  nothing is enqueued and the call fails.
\<close>

theorem print_message_full_queue_counterexample:
  "print_message (Some ''hi'') False (Some (replicate 5 (replicate 256 NUL))) =
     (pdFAIL, Some (replicate 5 (replicate 256 NUL)), [QueueSend 100])"
  by (simp add: print_message_def xQueueSend_def PRINT_QUEUE_DEPTH_def pdMS_TO_TICKS_enqueue)

subsection \<open>Watchdog table\<close>

lemma list3: "length xs = 3 \<Longrightarrow> \<exists>a b c. xs = [a, b, c]"
  by (auto simp: numeral_3_eq_3 length_Suc_conv)

lemma find_free_slot_0:
  "find_free_slot tasks 0 =
     (if \<not> registered (tasks ! 0) then 0
      else if \<not> registered (tasks ! 1) then 1
      else if \<not> registered (tasks ! 2) then 2 else 3)"
  by (simp add: WATCHDOG_MAX_TASKS_def)

lemma name_field:
  "length d = 16 \<Longrightarrow> (strncpy d name 15)[15 := NUL] = take 15 (name @ replicate 15 NUL) @ [NUL]"
  by (auto simp: strncpy_def list_eq_iff_nth_eq nth_append nth_list_update min_def)

lemma c_str_name_field: "c_str (take 15 (name @ replicate 15 NUL) @ [NUL]) = take 15 (c_str name)"
proof -
  have "take 15 (name @ replicate 15 NUL) @ [NUL]
        = take 15 name @ replicate (16 - min 15 (length name)) NUL"
    by (auto simp: list_eq_iff_nth_eq nth_append min_def)
  then show ?thesis
    by (simp add: c_str_pad c_str_take)
qed

lemma register_full_iff:
  assumes "watchdog_table_ok s"
  shows "fst (watchdog_register name timeout tick s) = WATCHDOG_INVALID_ID
         \<longleftrightarrow> list_all registered (watchdog_tasks s)"
proof -
  from assms have "length (watchdog_tasks s) = 3"
    by (simp add: watchdog_table_ok_def WATCHDOG_MAX_TASKS_def)
  then obtain a b c where t: "watchdog_tasks s = [a, b, c]"
    using list3 by blast
  from assms t have n: "unat (num_registered s) = length (filter registered [a, b, c])"
    by (simp add: watchdog_table_ok_def)
  show ?thesis
    using n
    by (auto simp: watchdog_register_def t find_free_slot_0 WATCHDOG_MAX_TASKS_def
        WATCHDOG_INVALID_ID_def Let_def word_le_nat_alt split: if_splits)
qed

lemma register_free:
  assumes "watchdog_table_ok s" and "\<not> list_all registered (watchdog_tasks s)"
  shows "(let r = watchdog_register name timeout tick s; slot = fst r; s' = fst (snd r) in
          slot < WATCHDOG_MAX_TASKS \<and> \<not> registered (watchdog_tasks s ! unat slot) \<and>
          watchdog_tasks s' = (watchdog_tasks s)[unat slot :=
             \<lparr>task_name = take 15 (name @ replicate 15 NUL) @ [NUL], timeout_ms = timeout,
              last_feed_tick = tick, registered = True\<rparr>] \<and>
          watchdog_table_ok s')"
proof -
  from assms have "length (watchdog_tasks s) = 3"
    by (simp add: watchdog_table_ok_def WATCHDOG_MAX_TASKS_def)
  then obtain a b c where t: "watchdog_tasks s = [a, b, c]"
    using list3 by blast
  from assms t have n: "unat (num_registered s) = length (filter registered [a, b, c])"
    and l: "length (task_name a) = 16" "length (task_name b) = 16" "length (task_name c) = 16"
    by (simp_all add: watchdog_table_ok_def)
  have u: "unat (num_registered s + 1) = unat (num_registered s) + 1" if "unat (num_registered s) < 3"
    using that by (simp add: unat_word_ariths)
  show ?thesis
    using n l assms(2) u
    by (cases a; cases b; cases c)
       (auto simp: watchdog_register_def t find_free_slot_0 WATCHDOG_MAX_TASKS_def
        WATCHDOG_INVALID_ID_def Let_def word_le_nat_alt word_less_nat_alt name_field
        watchdog_table_ok_def split: if_splits)
qed

lemma feed_cases:
  "watchdog_feed slot tick s =
     (if slot < WATCHDOG_MAX_TASKS \<and> registered (watchdog_tasks s ! unat slot)
      then s\<lparr>watchdog_tasks := (watchdog_tasks s)[unat slot :=
                (watchdog_tasks s ! unat slot)\<lparr>last_feed_tick := tick\<rparr>]\<rparr>
      else s)"
  by (auto simp: watchdog_feed_def not_le)

lemma watchdog_init_eq:
  "fst watchdog_init =
     \<lparr>watchdog_tasks =
        [\<lparr>task_name = replicate 16 NUL, timeout_ms = 0, last_feed_tick = 0, registered = False\<rparr>,
         \<lparr>task_name = replicate 16 NUL, timeout_ms = 0, last_feed_tick = 0, registered = False\<rparr>,
         \<lparr>task_name = replicate 16 NUL, timeout_ms = 0, last_feed_tick = 0, registered = False\<rparr>],
      num_registered = 0, timeout_callback = False\<rparr>"
proof -
  have "unat WATCHDOG_MAX_TASKS = Suc (Suc (Suc 0))"
    by (simp add: WATCHDOG_MAX_TASKS_def)
  then have "replicate (unat WATCHDOG_MAX_TASKS) x = [x, x, x]" for x :: watchdog_entry_t
    by simp
  then show ?thesis
    by (simp add: watchdog_init_def)
qed

lemma watchdog_init_ok: "watchdog_table_ok (fst watchdog_init)"
  by (simp add: watchdog_init_eq watchdog_table_ok_def WATCHDOG_MAX_TASKS_def)


lemma slot_cases: "(slot :: 8 word) < 3 \<Longrightarrow> slot = 0 \<or> slot = 1 \<or> slot = 2"
proof -
  assume "slot < 3"
  then have "unat slot < 3" by (simp add: word_less_nat_alt)
  then have c: "unat slot = 0 \<or> unat slot = 1 \<or> unat slot = 2" by arith
  have "unat slot = unat (0 :: 8 word) \<or> unat slot = unat (1 :: 8 word) \<or> unat slot = unat (2 :: 8 word)"
    using c by simp
  then show ?thesis
    by (simp only: word_unat_eq_iff [symmetric])
qed

lemma feed_checked:
  assumes "watchdog_table_ok s"
  shows "watchdog_feed_checked slot tick s = Some (watchdog_feed slot tick s)"
proof (cases "slot \<ge> WATCHDOG_MAX_TASKS")
  case True
  then show ?thesis
    by (simp add: watchdog_feed_checked_def watchdog_feed_def)
next
  case False
  then have "unat slot < length (watchdog_tasks s)"
    using assms by (simp add: watchdog_table_ok_def word_less_nat_alt not_le)
  with False show ?thesis
    by (simp add: watchdog_feed_checked_def watchdog_feed_def entry_at_def)
qed

lemma feed_checked_invalid:
  "slot \<ge> WATCHDOG_MAX_TASKS \<Longrightarrow> watchdog_feed_checked slot tick s = Some s"
  by (simp add: watchdog_feed_checked_def)

text \<open>
  C8 (as amended). On a well-formed table, \<open>watchdog_register\<close> returns
  \<open>WATCHDOG_INVALID_ID\<close> exactly when all three slots are in use, and then changes
  nothing; otherwise it returns the index of a slot that was free and fills it with the
  first 15 characters of the name (NUL-padded to 16 bytes), the timeout and the current
  tick count, leaving the other slots alone. \<open>watchdog_feed\<close> on a registered id sets
  that entry's feed time to the current tick (elapsed time 0) and touches nothing else;
  on any other id it leaves the state unchanged. For every id, in range or not, registered
  or not, \<open>watchdog_feed\<close> stays inside the table: with the accesses checked it returns
  the same state and never reaches outside the array; for an id out of range it does not
  read the table at all. It keeps the table well-formed.
\<close>

theorem watchdog_register_and_feed:
  assumes "watchdog_table_ok s"
  shows
   "(fst (watchdog_register name timeout tick s) = WATCHDOG_INVALID_ID
       \<longleftrightarrow> list_all registered (watchdog_tasks s)) \<and>
    (list_all registered (watchdog_tasks s) \<longrightarrow>
       fst (snd (watchdog_register name timeout tick s)) = s) \<and>
    (\<not> list_all registered (watchdog_tasks s) \<longrightarrow>
       (let r = watchdog_register name timeout tick s; slot = fst r; s' = fst (snd r) in
          slot < WATCHDOG_MAX_TASKS \<and> \<not> registered (watchdog_tasks s ! unat slot) \<and>
          watchdog_tasks s' = (watchdog_tasks s)[unat slot :=
             \<lparr>task_name = take 15 (name @ replicate 15 NUL) @ [NUL], timeout_ms = timeout,
              last_feed_tick = tick, registered = True\<rparr>] \<and>
          watchdog_table_ok s')) \<and>
    c_str (take 15 (name @ replicate 15 NUL) @ [NUL]) = take 15 (c_str name) \<and>
    (slot < WATCHDOG_MAX_TASKS \<and> registered (watchdog_tasks s ! unat slot) \<longrightarrow>
       watchdog_feed slot tick s =
         s\<lparr>watchdog_tasks := (watchdog_tasks s)[unat slot :=
              (watchdog_tasks s ! unat slot)\<lparr>last_feed_tick := tick\<rparr>]\<rparr> \<and>
       pdTICKS_TO_MS (tick - last_feed_tick (watchdog_tasks (watchdog_feed slot tick s) ! unat slot)) = 0) \<and>
    (\<not> (slot < WATCHDOG_MAX_TASKS \<and> registered (watchdog_tasks s ! unat slot)) \<longrightarrow>
       watchdog_feed slot tick s = s) \<and>
    watchdog_feed_checked slot tick s = Some (watchdog_feed slot tick s) \<and>
    watchdog_table_ok (watchdog_feed slot tick s) \<and>
    (slot \<ge> WATCHDOG_MAX_TASKS \<longrightarrow> watchdog_feed_checked slot tick any = Some any)"
proof -
  have len: "length (watchdog_tasks s) = 3"
    using assms by (simp add: watchdog_table_ok_def WATCHDOG_MAX_TASKS_def)
  have full: "fst (snd (watchdog_register name timeout tick s)) = s"
    if "list_all registered (watchdog_tasks s)"
  proof -
    from len obtain a b c where t: "watchdog_tasks s = [a, b, c]"
      using list3 by blast
    with assms that have "unat (num_registered s) = 3"
      by (simp add: watchdog_table_ok_def)
    then have "num_registered s \<ge> WATCHDOG_MAX_TASKS"
      by (simp add: WATCHDOG_MAX_TASKS_def word_le_nat_alt)
    then show ?thesis
      by (simp add: watchdog_register_def)
  qed
  have fed: "pdTICKS_TO_MS (tick - last_feed_tick (watchdog_tasks (watchdog_feed slot tick s) ! unat slot)) = 0"
    if "slot < WATCHDOG_MAX_TASKS" "registered (watchdog_tasks s ! unat slot)"
  proof -
    from that(1) have "unat slot < length (watchdog_tasks s)"
      by (simp add: len WATCHDOG_MAX_TASKS_def word_less_nat_alt)
    with that show ?thesis
      by (simp add: feed_cases pdTICKS_TO_MS_ident)
  qed
  have keeps: "watchdog_table_ok (watchdog_feed slot tick s)"
  proof -
    from len obtain a b c where t: "watchdog_tasks s = [a, b, c]"
      using list3 by blast
    show ?thesis
    proof (cases "slot < WATCHDOG_MAX_TASKS")
      case True
      then have "slot < 3" by (simp add: WATCHDOG_MAX_TASKS_def)
      then have "slot = 0 \<or> slot = 1 \<or> slot = 2" by (rule slot_cases)
      then show ?thesis
        using assms
        by (auto simp: feed_cases t watchdog_table_ok_def WATCHDOG_MAX_TASKS_def)
    next
      case False
      then show ?thesis using assms by (simp add: feed_cases)
    qed
  qed
  show ?thesis
    using register_full_iff [OF assms, of name timeout tick]
      register_free [OF assms, of name timeout tick] full fed c_str_name_field [of name]
      feed_checked [OF assms, of slot tick] keeps feed_checked_invalid [of slot tick any]
    by (simp add: feed_cases)
qed

theorem watchdog_register_and_feed_witness:
  "watchdog_table_ok (fst watchdog_init) \<and>
   \<not> list_all registered (watchdog_tasks (fst watchdog_init)) \<and>
   fst (watchdog_register ''ESP8266_Comm'' 5000 42 (fst watchdog_init)) \<noteq> WATCHDOG_INVALID_ID \<and>
   watchdog_table_ok (fst (snd (watchdog_register ''ESP8266_Comm'' 5000 42 (fst watchdog_init)))) \<and>
   watchdog_feed 0xFF 42 (fst watchdog_init) = fst watchdog_init \<and>
   watchdog_feed_checked 0xFF 42 (fst watchdog_init) = Some (fst watchdog_init) \<and>
   last_feed_tick (watchdog_tasks (watchdog_feed 0 77
      \<lparr>watchdog_tasks =
         [\<lparr>task_name = replicate 16 NUL, timeout_ms = 5000, last_feed_tick = 42, registered = True\<rparr>,
          \<lparr>task_name = replicate 16 NUL, timeout_ms = 0, last_feed_tick = 0, registered = False\<rparr>,
          \<lparr>task_name = replicate 16 NUL, timeout_ms = 0, last_feed_tick = 0, registered = False\<rparr>],
       num_registered = 1, timeout_callback = False\<rparr>) ! 0) = 77"
proof -
  let ?s = "fst watchdog_init"
  let ?s1 = "\<lparr>watchdog_tasks =
         [\<lparr>task_name = replicate 16 NUL, timeout_ms = 5000, last_feed_tick = 42, registered = True\<rparr>,
          \<lparr>task_name = replicate 16 NUL, timeout_ms = 0, last_feed_tick = 0, registered = False\<rparr>,
          \<lparr>task_name = replicate 16 NUL, timeout_ms = 0, last_feed_tick = 0, registered = False\<rparr>],
       num_registered = 1, timeout_callback = False\<rparr>"
  have free: "\<not> list_all registered (watchdog_tasks ?s)"
    by (simp add: watchdog_init_eq)
  have bad: "\<not> (0xFF < WATCHDOG_MAX_TASKS \<and> registered (watchdog_tasks ?s ! unat (0xFF :: 8 word)))"
    by (simp add: WATCHDOG_MAX_TASKS_def)
  note T = watchdog_register_and_feed [OF watchdog_init_ok, of "''ESP8266_Comm''" 5000 42 "0xFF"]
  from T free have "fst (watchdog_register ''ESP8266_Comm'' 5000 42 ?s) \<noteq> WATCHDOG_INVALID_ID"
    by blast
  moreover from T free
  have "watchdog_table_ok (fst (snd (watchdog_register ''ESP8266_Comm'' 5000 42 ?s)))"
    by (simp add: Let_def)
  moreover from T bad have same: "watchdog_feed 0xFF 42 ?s = ?s"
    by blast
  moreover from T have "watchdog_feed_checked 0xFF 42 ?s = Some (watchdog_feed 0xFF 42 ?s)"
    by blast
  with same have "watchdog_feed_checked 0xFF 42 ?s = Some ?s"
    by simp
  moreover have "last_feed_tick (watchdog_tasks (watchdog_feed 0 77 ?s1) ! 0) = 77"
  proof -
    have ok1: "watchdog_table_ok ?s1"
      by (simp add: watchdog_table_ok_def WATCHDOG_MAX_TASKS_def)
    have good: "0 < WATCHDOG_MAX_TASKS \<and> registered (watchdog_tasks ?s1 ! unat (0 :: 8 word))"
      by (simp add: WATCHDOG_MAX_TASKS_def)
    from watchdog_register_and_feed [OF ok1, of "''x''" 0 77 0] good
    have "watchdog_feed 0 77 ?s1 =
          ?s1\<lparr>watchdog_tasks := (watchdog_tasks ?s1)[unat (0 :: 8 word) :=
              (watchdog_tasks ?s1 ! unat (0 :: 8 word))\<lparr>last_feed_tick := 77\<rparr>]\<rparr>"
      by blast
    then show ?thesis by simp
  qed
  ultimately show ?thesis
    using free watchdog_init_ok by simp
qed

text \<open>
  The claim as first stated has the slot hold the given name. A name of 16 characters or
  more is stored cut to 15.
\<close>

theorem watchdog_register_long_name_counterexample:
  "c_str (task_name (watchdog_tasks
      (fst (snd (watchdog_register ''ESP8266_Comm_Task'' 5000 42 (fst watchdog_init)))) ! 0))
     = ''ESP8266_Comm_Ta''"
  by code_simp

subsection \<open>Reliable transmitter\<close>

lemma pdMS_TO_TICKS_10: "pdMS_TO_TICKS 10 = 10"
  by (simp add: pdMS_TO_TICKS_def configTICK_RATE_HZ_def)

lemma strncmp_eq_take: "strncmp_eq xs ys n \<longleftrightarrow> take n xs = take n ys"
  by (induction xs ys n rule: strncmp_eq.induct) auto

lemma send_with_retry_cases:
  "send_with_retry hal frame s =
     (let n = tx_calls s
      in if hal n = HAL_OK then
           (HAL_OK, s\<lparr>tx_calls := n + 1\<rparr>, [Transmit huart2 frame 100 (hal n)])
         else if hal (n + 1) = HAL_OK then
           (HAL_OK, s\<lparr>tx_calls := n + 2\<rparr>,
            [Transmit huart2 frame 100 (hal n), TaskDelay 10,
             Transmit huart2 frame 100 (hal (n + 1))])
         else if hal (n + 2) = HAL_OK then
           (HAL_OK, s\<lparr>tx_calls := n + 3\<rparr>,
            [Transmit huart2 frame 100 (hal n), TaskDelay 10,
             Transmit huart2 frame 100 (hal (n + 1)), TaskDelay 10,
             Transmit huart2 frame 100 (hal (n + 2))])
         else
           (hal (n + 2), s\<lparr>tx_calls := n + 3\<rparr>, failed_attempts hal frame n))"
  by (simp add: send_with_retry_def uart2_transmit_def Let_def pdMS_TO_TICKS_10
      failed_attempts_def)

lemma prefix_exclusive:
  "take 8 line = ''LED_CMD:'' \<Longrightarrow> take 4 line \<noteq> ''PING'' \<and> take 10 line \<noteq> ''STM32_PONG''"
  "take 10 line = ''STM32_PONG'' \<Longrightarrow> take 4 line \<noteq> ''PING''"
  by (cases line; auto simp: take_Cons split: nat.splits)+


lemma led_switch_state:
  "fst (led_switch cmd s) =
     s\<lparr>current_pattern :=
         (if cmd = CHR ''1'' then LED_PATTERN_1
          else if cmd = CHR ''2'' then LED_PATTERN_2
          else if cmd = CHR ''3'' then LED_PATTERN_3
          else if cmd = CHR ''4'' then LED_PATTERN_NONE
          else current_pattern s)\<rparr>"
  by (simp add: led_switch_def led_effects_set_pattern_def)

lemma led_switch_tx_calls: "tx_calls (fst (led_switch cmd s)) = tx_calls s"
  by (simp add: led_switch_state)

lemma process_led_command_led:
  assumes "take 8 line = ''LED_CMD:''"
  shows "process_led_command hal tick line s =
     (let cmd = (line @ [NUL]) ! 8;
          (s', ack_msg, log_msg) = led_switch cmd s;
          (status, s'', evs) = send_with_retry hal ack_msg s'
      in (s'', [Print (Log_Received line)] @ evs @
               (if status \<noteq> HAL_OK then [Print Log_AckFailed] else []) @ [Print log_msg]))"
  using prefix_exclusive(1) [OF assms] assms
  by (simp add: process_led_command_def strncmp_eq_take)

text \<open>
  C3. Every frame goes through the same loop: at most three calls of
  \<open>HAL_UART_Transmit\<close>, none after the first that returns \<open>HAL_OK\<close>, and a delay of
  10 ticks (10 ms) after each call that fails. When all three fail, no frame has been
  accepted, each caller posts its failure line (\<open>Failed to send PONG\<close>,
  \<open>Failed to send ACK\<close>, \<open>Failed to send STM32_PING\<close>) and returns with its state
  otherwise as it would be.
\<close>

theorem reliable_transmitter_retries:
  "(let n = tx_calls s
    in send_with_retry hal frame s =
        (if hal n = HAL_OK then
           (HAL_OK, s\<lparr>tx_calls := n + 1\<rparr>, [Transmit huart2 frame 100 (hal n)])
         else if hal (n + 1) = HAL_OK then
           (HAL_OK, s\<lparr>tx_calls := n + 2\<rparr>,
            [Transmit huart2 frame 100 (hal n), TaskDelay 10,
             Transmit huart2 frame 100 (hal (n + 1))])
         else if hal (n + 2) = HAL_OK then
           (HAL_OK, s\<lparr>tx_calls := n + 3\<rparr>,
            [Transmit huart2 frame 100 (hal n), TaskDelay 10,
             Transmit huart2 frame 100 (hal (n + 1)), TaskDelay 10,
             Transmit huart2 frame 100 (hal (n + 2))])
         else
           (hal (n + 2), s\<lparr>tx_calls := n + 3\<rparr>, failed_attempts hal frame n))) \<and>
   pdMS_TO_TICKS 10 = 10 \<and>
   (hal (tx_calls s) \<noteq> HAL_OK \<and> hal (tx_calls s + 1) \<noteq> HAL_OK \<and> hal (tx_calls s + 2) \<noteq> HAL_OK \<longrightarrow>
      sent_frames (failed_attempts hal frame (tx_calls s)) = [] \<and>
      (take 4 line = ''PING'' \<longrightarrow>
         process_led_command hal tick line s =
           (s\<lparr>tx_calls := tx_calls s + 3\<rparr>,
            [Print (Log_Received line)] @ failed_attempts hal (''PONG'' @ CRLF) (tx_calls s) @
            [Print Log_PongFailed])) \<and>
      (take 8 line = ''LED_CMD:'' \<longrightarrow>
         process_led_command hal tick line s =
           ((fst (led_switch ((line @ [NUL]) ! 8) s))\<lparr>tx_calls := tx_calls s + 3\<rparr>,
            [Print (Log_Received line)] @
            failed_attempts hal (fst (snd (led_switch ((line @ [NUL]) ! 8) s))) (tx_calls s) @
            [Print Log_AckFailed, Print (snd (snd (led_switch ((line @ [NUL]) ! 8) s)))])) \<and>
      (ping_due now (first_jitter s) \<longrightarrow>
         ping_send hal now s =
           ((first_jitter s)\<lparr>tx_calls := tx_calls s + 3\<rparr>,
            failed_attempts hal (''STM32_PING'' @ CRLF) (tx_calls s) @ [Print Log_PingFailed])))"
proof -
  have fj: "tx_calls (first_jitter s) = tx_calls s"
    by (simp add: first_jitter_def get_random_jitter_def Let_def)
  have sf: "sent_frames (failed_attempts hal frame (tx_calls s)) = []"
    if "hal (tx_calls s) \<noteq> HAL_OK" "hal (tx_calls s + 1) \<noteq> HAL_OK" "hal (tx_calls s + 2) \<noteq> HAL_OK"
    using that
    by (cases "hal (tx_calls s)"; cases "hal (tx_calls s + 1)"; cases "hal (tx_calls s + 2)")
       (simp_all add: failed_attempts_def)
  have ping: "process_led_command hal tick line s =
           (s\<lparr>tx_calls := tx_calls s + 3\<rparr>,
            [Print (Log_Received line)] @ failed_attempts hal (''PONG'' @ CRLF) (tx_calls s) @
            [Print Log_PongFailed])"
    if "hal (tx_calls s) \<noteq> HAL_OK" "hal (tx_calls s + 1) \<noteq> HAL_OK" "hal (tx_calls s + 2) \<noteq> HAL_OK"
       "take 4 line = ''PING''"
    using that
    by (simp add: process_led_command_def strncmp_eq_take send_with_retry_cases Let_def)
  have led: "process_led_command hal tick line s =
           ((fst (led_switch ((line @ [NUL]) ! 8) s))\<lparr>tx_calls := tx_calls s + 3\<rparr>,
            [Print (Log_Received line)] @
            failed_attempts hal (fst (snd (led_switch ((line @ [NUL]) ! 8) s))) (tx_calls s) @
            [Print Log_AckFailed, Print (snd (snd (led_switch ((line @ [NUL]) ! 8) s)))])"
    if "hal (tx_calls s) \<noteq> HAL_OK" "hal (tx_calls s + 1) \<noteq> HAL_OK" "hal (tx_calls s + 2) \<noteq> HAL_OK"
       "take 8 line = ''LED_CMD:''"
    using that(1-3)
    by (simp add: process_led_command_led [OF that(4)] send_with_retry_cases Let_def
        led_switch_tx_calls split_beta)
  have png: "ping_send hal now s =
           ((first_jitter s)\<lparr>tx_calls := tx_calls s + 3\<rparr>,
            failed_attempts hal (''STM32_PING'' @ CRLF) (tx_calls s) @ [Print Log_PingFailed])"
    if "hal (tx_calls s) \<noteq> HAL_OK" "hal (tx_calls s + 1) \<noteq> HAL_OK" "hal (tx_calls s + 2) \<noteq> HAL_OK"
       "ping_due now (first_jitter s)"
    using that
    by (simp add: ping_send_def send_with_retry_cases Let_def fj)
  show ?thesis
    using sf ping led png send_with_retry_cases [of hal frame s]
    by (simp add: pdMS_TO_TICKS_10 Let_def)
qed


lemma tx_calls_comm_init: "tx_calls comm_init = 0"
  by (simp add: comm_init_def)

theorem reliable_transmitter_retries_witness:
  "process_led_command (\<lambda>k. HAL_BUSY) 0 ''PING'' comm_init =
     (comm_init\<lparr>tx_calls := 3\<rparr>,
      [Print (Log_Received ''PING''),
       Transmit huart2 (''PONG'' @ CRLF) 100 HAL_BUSY, TaskDelay 10,
       Transmit huart2 (''PONG'' @ CRLF) 100 HAL_BUSY, TaskDelay 10,
       Transmit huart2 (''PONG'' @ CRLF) 100 HAL_BUSY, TaskDelay 10,
       Print Log_PongFailed]) \<and>
   send_with_retry (\<lambda>k. if k = 1 then HAL_OK else HAL_TIMEOUT) ''PONG'' comm_init =
     (HAL_OK, comm_init\<lparr>tx_calls := 2\<rparr>,
      [Transmit huart2 ''PONG'' 100 HAL_TIMEOUT, TaskDelay 10,
       Transmit huart2 ''PONG'' 100 HAL_OK])"
proof -
  have h: "take 4 ''PING'' = ''PING''" by simp
  have "process_led_command (\<lambda>k. HAL_BUSY) 0 ''PING'' comm_init =
     (comm_init\<lparr>tx_calls := tx_calls comm_init + 3\<rparr>,
      [Print (Log_Received ''PING'')] @
      failed_attempts (\<lambda>k. HAL_BUSY) (''PONG'' @ CRLF) (tx_calls comm_init) @
      [Print Log_PongFailed])"
    using reliable_transmitter_retries
      [of comm_init "\<lambda>k. HAL_BUSY" "''PONG''" "''PING''" 0 0] h
    by simp
  moreover have "send_with_retry (\<lambda>k. if k = 1 then HAL_OK else HAL_TIMEOUT) ''PONG'' comm_init =
     (HAL_OK, comm_init\<lparr>tx_calls := 2\<rparr>,
      [Transmit huart2 ''PONG'' 100 HAL_TIMEOUT, TaskDelay 10,
       Transmit huart2 ''PONG'' 100 HAL_OK])"
    using reliable_transmitter_retries
      [of comm_init "\<lambda>k. if k = 1 then HAL_OK else HAL_TIMEOUT" "''PONG''" "''PING''" 0 0]
    by (simp add: tx_calls_comm_init)
  ultimately show ?thesis
    by (simp add: failed_attempts_def tx_calls_comm_init)
qed

subsection \<open>Command dispatch\<close>

lemma retry_frames:
  "set (tx_frames ([Print a] @ snd (snd (send_with_retry hal reply s)) @ [Print b])) = {reply} \<and>
   set (tx_frames ([Print a] @ snd (snd (send_with_retry hal reply s)) @ [Print c, Print b]))
     = {reply} \<and>
   sent_frames ([Print a] @ snd (snd (send_with_retry hal reply s)) @ [Print b]) =
     (if hal (tx_calls s) = HAL_OK \<or> hal (tx_calls s + 1) = HAL_OK \<or> hal (tx_calls s + 2) = HAL_OK
      then [reply] else []) \<and>
   sent_frames ([Print a] @ snd (snd (send_with_retry hal reply s)) @ [Print c, Print b]) =
     (if hal (tx_calls s) = HAL_OK \<or> hal (tx_calls s + 1) = HAL_OK \<or> hal (tx_calls s + 2) = HAL_OK
      then [reply] else [])"
  unfolding send_with_retry_cases Let_def
  by (cases "hal (tx_calls s)"; cases "hal (tx_calls s + 1)"; cases "hal (tx_calls s + 2)")
     (simp_all add: failed_attempts_def)

text \<open>
  C2. On a line that starts with \<open>LED_CMD:\<close>, the token is the character after the
  prefix. Tokens 1, 2, 3 and 4 set the pattern to pattern 1, 2, 3 and none; any other
  token leaves the pattern as it is. Every transmit attempt of the dispatch carries the
  reply of the token (\<open>OK:Pattern1\<close>, \<open>OK:Pattern2\<close>, \<open>OK:Pattern3\<close>,
  \<open>OK:AllOFF\<close>, otherwise \<open>ERROR:InvalidPattern\<close>, each with its line end), and that
  frame is sent once when one of the three attempts succeeds.
\<close>

theorem led_command_dispatch:
  assumes "take 8 line = ''LED_CMD:''"
  shows
   "(let token = (line @ [NUL]) ! 8;
         reply = (if token = CHR ''1'' then ''OK:Pattern1''
                  else if token = CHR ''2'' then ''OK:Pattern2''
                  else if token = CHR ''3'' then ''OK:Pattern3''
                  else if token = CHR ''4'' then ''OK:AllOFF''
                  else ''ERROR:InvalidPattern'') @ CRLF;
         pattern = (if token = CHR ''1'' then LED_PATTERN_1
                    else if token = CHR ''2'' then LED_PATTERN_2
                    else if token = CHR ''3'' then LED_PATTERN_3
                    else if token = CHR ''4'' then LED_PATTERN_NONE
                    else current_pattern s);
         n = tx_calls s;
         (s', evs) = process_led_command hal tick line s
     in current_pattern s' = pattern \<and>
        set (tx_frames evs) = {reply} \<and>
        sent_frames evs =
          (if hal n = HAL_OK \<or> hal (n + 1) = HAL_OK \<or> hal (n + 2) = HAL_OK
           then [reply] else []))"
proof -
  define token where "token = (line @ [NUL]) ! 8"
  define s1 where "s1 = fst (led_switch token s)"
  define reply where "reply = fst (snd (led_switch token s))"
  define log where "log = snd (snd (led_switch token s))"
  define r where "r = send_with_retry hal reply s1"
  have sw: "led_switch token s = (s1, reply, log)"
    by (simp add: s1_def reply_def log_def)
  have n: "tx_calls s1 = tx_calls s"
    by (simp add: s1_def led_switch_tx_calls)
  have reply: "reply =
       (if token = CHR ''1'' then ''OK:Pattern1''
        else if token = CHR ''2'' then ''OK:Pattern2''
        else if token = CHR ''3'' then ''OK:Pattern3''
        else if token = CHR ''4'' then ''OK:AllOFF''
        else ''ERROR:InvalidPattern'') @ CRLF"
    by (simp add: reply_def led_switch_def)
  have pat: "current_pattern (fst (snd r)) =
       (if token = CHR ''1'' then LED_PATTERN_1
        else if token = CHR ''2'' then LED_PATTERN_2
        else if token = CHR ''3'' then LED_PATTERN_3
        else if token = CHR ''4'' then LED_PATTERN_NONE
        else current_pattern s)"
    by (simp add: r_def send_with_retry_cases Let_def s1_def led_switch_state)
  have p: "process_led_command hal tick line s =
      (fst (snd r), [Print (Log_Received line)] @ snd (snd r) @
         (if fst r \<noteq> HAL_OK then [Print Log_AckFailed] else []) @ [Print log])"
    by (simp add: process_led_command_led [OF assms] Let_def token_def [symmetric] sw
        r_def [symmetric] split_beta)
  have f: "set (tx_frames (snd (process_led_command hal tick line s))) = {reply}"
    using retry_frames [of "Log_Received line" hal reply s1 log Log_AckFailed]
    by (simp add: p r_def)
  have g: "sent_frames (snd (process_led_command hal tick line s)) =
     (if hal (tx_calls s) = HAL_OK \<or> hal (tx_calls s + 1) = HAL_OK \<or> hal (tx_calls s + 2) = HAL_OK
      then [reply] else [])"
    using retry_frames [of "Log_Received line" hal reply s1 log Log_AckFailed]
    by (simp add: p r_def n)
  show ?thesis
    using pat f g
    by (simp add: Let_def token_def [symmetric] reply [symmetric] split_beta p)
qed

theorem led_command_dispatch_witness:
  "take 8 ''LED_CMD:2'' = ''LED_CMD:'' \<and>
   current_pattern (fst (process_led_command (\<lambda>k. HAL_OK) 0 ''LED_CMD:2'' comm_init))
     = LED_PATTERN_2 \<and>
   sent_frames (snd (process_led_command (\<lambda>k. HAL_OK) 0 ''LED_CMD:2'' comm_init))
     = [''OK:Pattern2'' @ CRLF]"
proof -
  have h: "take 8 ''LED_CMD:2'' = ''LED_CMD:''" by simp
  have t: "(''LED_CMD:2'' @ [NUL]) ! 8 = CHR ''2''" by simp
  show ?thesis
    using led_command_dispatch [OF h, of comm_init "\<lambda>k. HAL_OK" 0] h
    unfolding Let_def t split_beta
    by simp
qed

lemma bare_pong_unmatched:
  "take 4 line = ''PONG'' \<Longrightarrow>
     take 4 line \<noteq> ''PING'' \<and> take 10 line \<noteq> ''STM32_PONG'' \<and> take 8 line \<noteq> ''LED_CMD:''"
  by (cases line; auto simp: take_Cons split: nat.splits)

text \<open>
  C7 (as amended). A line that starts with \<open>STM32_PONG\<close>, the reply to this node's own
  \<open>STM32_PING\<close>, clears \<open>waiting_for_pong\<close>, marks the link healthy and transmits
  nothing; it changes nothing else but the time of the last reply. A line that starts with
  the bare \<open>PONG\<close> matches none of the three prefixes the dispatcher tests: whatever
  the state and the answers of the HAL, it is logged and nothing else happens.
\<close>

theorem stm32_pong_dispatch:
  "(take 10 line = ''STM32_PONG'' \<longrightarrow>
     (let (s', evs) = process_led_command hal tick line s
      in waiting_for_pong s' = False \<and> uart_connection_ok s' = True \<and>
         last_pong_received s' = tick \<and>
         s'\<lparr>waiting_for_pong := waiting_for_pong s, uart_connection_ok := uart_connection_ok s,
            last_pong_received := last_pong_received s\<rparr> = s \<and>
         tx_frames evs = [] \<and>
         evs = [Print (Log_Received line)] @
               (if uart_connection_ok s then [] else [Print Log_ConnectionRestored]) @
               [Print Log_Stm32PongReceived])) \<and>
   (take 4 line = ''PONG'' \<longrightarrow>
      \<not> strncmp_eq line ''PING'' 4 \<and> \<not> strncmp_eq line ''STM32_PONG'' 10 \<and>
      \<not> strncmp_eq line ''LED_CMD:'' 8 \<and>
      process_led_command hal tick line s = (s, [Print (Log_Received line)]))"
proof -
  have a: "(let (s', evs) = process_led_command hal tick line s
      in waiting_for_pong s' = False \<and> uart_connection_ok s' = True \<and>
         last_pong_received s' = tick \<and>
         s'\<lparr>waiting_for_pong := waiting_for_pong s, uart_connection_ok := uart_connection_ok s,
            last_pong_received := last_pong_received s\<rparr> = s \<and>
         tx_frames evs = [] \<and>
         evs = [Print (Log_Received line)] @
               (if uart_connection_ok s then [] else [Print Log_ConnectionRestored]) @
               [Print Log_Stm32PongReceived])"
    if h: "take 10 line = ''STM32_PONG''"
    using prefix_exclusive(2) [OF h] h
    by (simp add: process_led_command_def strncmp_eq_take Let_def)
  have b: "\<not> strncmp_eq line ''PING'' 4 \<and> \<not> strncmp_eq line ''STM32_PONG'' 10 \<and>
      \<not> strncmp_eq line ''LED_CMD:'' 8 \<and>
      process_led_command hal tick line s = (s, [Print (Log_Received line)])"
    if h: "take 4 line = ''PONG''"
    using bare_pong_unmatched [OF h]
    by (simp add: process_led_command_def strncmp_eq_take)
  from a b show ?thesis by blast
qed

theorem stm32_pong_dispatch_witness:
  "take 10 ''STM32_PONG'' = ''STM32_PONG'' \<and>
   snd (process_led_command (\<lambda>k. HAL_OK) 7 ''STM32_PONG''
          (comm_init\<lparr>waiting_for_pong := True, uart_connection_ok := False\<rparr>)) =
     [Print (Log_Received ''STM32_PONG''), Print Log_ConnectionRestored,
      Print Log_Stm32PongReceived] \<and>
   uart_connection_ok (fst (process_led_command (\<lambda>k. HAL_OK) 7 ''STM32_PONG''
          (comm_init\<lparr>waiting_for_pong := True, uart_connection_ok := False\<rparr>))) \<and>
   \<not> waiting_for_pong (fst (process_led_command (\<lambda>k. HAL_OK) 7 ''STM32_PONG''
          (comm_init\<lparr>waiting_for_pong := True, uart_connection_ok := False\<rparr>))) \<and>
   take 4 ''PONG:42'' = ''PONG'' \<and>
   process_led_command (\<lambda>k. HAL_BUSY) 7 ''PONG:42''
          (comm_init\<lparr>waiting_for_pong := True, uart_connection_ok := False\<rparr>) =
     (comm_init\<lparr>waiting_for_pong := True, uart_connection_ok := False\<rparr>,
      [Print (Log_Received ''PONG:42'')])"
proof -
  have h: "take 10 ''STM32_PONG'' = ''STM32_PONG''" by simp
  have g: "take 4 ''PONG:42'' = ''PONG''" by simp
  show ?thesis
    using stm32_pong_dispatch [of "''STM32_PONG''" "\<lambda>k. HAL_OK" 7
        "comm_init\<lparr>waiting_for_pong := True, uart_connection_ok := False\<rparr>"]
      stm32_pong_dispatch [of "''PONG:42''" "\<lambda>k. HAL_BUSY" 7
        "comm_init\<lparr>waiting_for_pong := True, uart_connection_ok := False\<rparr>"] h g
    by (simp add: split_beta)
qed

text \<open>
  The claim as first stated names the prefix \<open>PONG\<close>. A line \<open>PONG\<close> matches none of
  the three prefixes the dispatcher tests: it is logged and the link state stays as it was.
\<close>

theorem bare_pong_ignored_counterexample:
  "process_led_command (\<lambda>k. HAL_OK) 0 ''PONG''
     (comm_init\<lparr>waiting_for_pong := True, uart_connection_ok := False\<rparr>) =
   (comm_init\<lparr>waiting_for_pong := True, uart_connection_ok := False\<rparr>,
    [Print (Log_Received ''PONG'')])"
  by (simp add: process_led_command_def strncmp_eq_take)


subsection \<open>Line assembler\<close>

lemma tail_len: "length (drop (64 * (length cur div 64)) cur) = length cur mod 64"
  by (simp add: minus_mult_div_eq_mod)

lemma tail_empty: "drop (64 * (length cur div 64)) cur = [] \<longleftrightarrow> length cur mod 64 = 0"
proof -
  have "drop (64 * (length cur div 64)) cur = []
        \<longleftrightarrow> length (drop (64 * (length cur div 64)) cur) = 0"
    by (rule length_0_conv [symmetric])
  then show ?thesis
    unfolding tail_len .
qed

lemma div_mod_step:
  fixes n :: nat
  shows "n mod 64 = 63 \<Longrightarrow> Suc n div 64 = n div 64 + 1 \<and> Suc n mod 64 = 0"
    and "n mod 64 \<noteq> 63 \<Longrightarrow> Suc n div 64 = n div 64 \<and> Suc n mod 64 = n mod 64 + 1 \<and> n mod 64 < 63"
proof -
  have b: "n mod 64 < 64" by simp
  show "n mod 64 = 63 \<Longrightarrow> Suc n div 64 = n div 64 + 1 \<and> Suc n mod 64 = 0"
    by (simp add: mod_Suc div_Suc)
  show "n mod 64 \<noteq> 63 \<Longrightarrow> Suc n div 64 = n div 64 \<and> Suc n mod 64 = n mod 64 + 1 \<and> n mod 64 < 63"
    using b by (simp add: mod_Suc div_Suc) 
qed

lemma asm_split:
  "replicate (length cur div 64) Overflow @ asm (drop (64 * (length cur div 64)) cur) bs =
   concat (map segment_output (fst (split_acc cur bs))) @
   replicate (length (snd (split_acc cur bs)) div 64) Overflow"
proof (induction bs arbitrary: cur)
  case Nil
  then show ?case by simp
next
  case (Cons c cs)
  let ?k = "length cur div 64"
  let ?p = "drop (64 * ?k) cur"
  let ?R = "\<lambda>cur bs. concat (map segment_output (fst (split_acc cur bs))) @
              replicate (length (snd (split_acc cur bs)) div 64) Overflow"
  show ?case
  proof (cases "c = CHR 0x0A \<or> c = CHR 0x0D")
    case True
    have a: "asm ?p (c # cs) =
          (if length cur mod 64 = 0 then [] else [Line (c_str ?p)]) @ asm [] cs"
      using True tail_empty [of cur] by simp
    have sp: "split_acc cur (c # cs) = (cur # fst (split_acc [] cs), snd (split_acc [] cs))"
      using True by (simp add: split_beta)
    have "replicate ?k Overflow @ asm ?p (c # cs) = segment_output cur @ asm [] cs"
      unfolding a by (simp add: segment_output_def)
    also have "asm [] cs = ?R [] cs"
      using Cons.IH [of "[]"] by simp
    also have "segment_output cur @ ?R [] cs = ?R cur (c # cs)"
      unfolding sp by simp
    finally show ?thesis .
  next
    case False
    then have sp: "split_acc cur (c # cs) = split_acc (cur @ [c]) cs"
      by simp
    show ?thesis
    proof (cases "length cur mod 64 = 63")
      case True
      from div_mod_step(1) [OF True]
      have d: "length (cur @ [c]) div 64 = ?k + 1" "length (cur @ [c]) mod 64 = 0"
        by simp_all
      have t: "drop (64 * (length (cur @ [c]) div 64)) (cur @ [c]) = []"
        using tail_empty [of "cur @ [c]"] d(2) by blast
      have a: "asm ?p (c # cs) = Overflow # asm [] cs"
        using False True tail_len [of cur] by simp
      have "replicate ?k Overflow @ asm ?p (c # cs) = replicate (?k + 1) Overflow @ asm [] cs"
        unfolding a by (simp add: replicate_app_Cons_same)
      also have "\<dots> = replicate (length (cur @ [c]) div 64) Overflow @
                     asm (drop (64 * (length (cur @ [c]) div 64)) (cur @ [c])) cs"
        unfolding t unfolding d(1) ..
      also have "\<dots> = ?R (cur @ [c]) cs"
        by (rule Cons.IH)
      finally show ?thesis
        unfolding sp .
    next
      case F2: False
      from div_mod_step(2) [OF F2]
      have d: "length (cur @ [c]) div 64 = ?k" and l: "length cur mod 64 < 63"
        by simp_all
      have "64 * ?k \<le> length cur" by simp
      then have t: "drop (64 * (length (cur @ [c]) div 64)) (cur @ [c]) = ?p @ [c]"
        unfolding d by simp
      have a: "asm ?p (c # cs) = asm (?p @ [c]) cs"
        using False l tail_len [of cur] by simp
      have "replicate ?k Overflow @ asm ?p (c # cs) =
            replicate (length (cur @ [c]) div 64) Overflow @
              asm (drop (64 * (length (cur @ [c]) div 64)) (cur @ [c])) cs"
        unfolding t unfolding d a ..
      also have "\<dots> = ?R (cur @ [c]) cs"
        by (rule Cons.IH)
      finally show ?thesis
        unfolding sp .
    qed
  qed
qed


lemma assembler_output_append:
  "assembler_output (xs @ ys) = assembler_output xs @ assembler_output ys"
  by (induction xs rule: assembler_output.induct) simp_all

lemma send_with_retry_rx:
  "rx_buffer (fst (snd (send_with_retry hal frame s))) = rx_buffer s \<and>
   rx_index (fst (snd (send_with_retry hal frame s))) = rx_index s \<and>
   assembler_output (snd (snd (send_with_retry hal frame s))) = []"
  by (simp add: send_with_retry_cases Let_def failed_attempts_def)

lemma led_switch_rx:
  "rx_buffer (fst (led_switch cmd s)) = rx_buffer s \<and>
   rx_index (fst (led_switch cmd s)) = rx_index s \<and>
   assembler_output [Print (snd (snd (led_switch cmd s)))] = []"
  by (simp add: led_switch_state) (simp add: led_switch_def)

lemma process_led_command_rx:
  "rx_buffer (fst (process_led_command hal tick line s)) = rx_buffer s \<and>
   rx_index (fst (process_led_command hal tick line s)) = rx_index s \<and>
   assembler_output (snd (process_led_command hal tick line s)) = [Line line]"
  by (simp add: process_led_command_def split_beta Let_def send_with_retry_rx led_switch_rx
      assembler_output_append)

lemma c_str_cut: "c_str (xs @ NUL # ys) = c_str xs"
  unfolding c_str_def by (induction xs) simp_all

lemma c_str_terminated:
  "i < length buf \<Longrightarrow> c_str (buf[i := NUL]) = c_str (take i buf)"
  by (simp add: upd_conv_take_nth_drop c_str_cut)

lemma rx_index_zero: "(0 < (w :: 16 word)) = (unat w \<noteq> 0)"
  by (simp add: word_greater_zero_iff unat_eq_0)

lemma rx_index_next: "unat (w :: 16 word) < 63 \<Longrightarrow> unat (w + 1) = unat w + 1"
  by (simp add: unat_word_ariths)

lemma process_char_asm:
  assumes "length (rx_buffer s) = 64" and "unat (rx_index s) < 64"
  shows "length (rx_buffer (fst (process_char hal tick c s))) = 64 \<and>
         unat (rx_index (fst (process_char hal tick c s))) < 64 \<and>
         assembler_output (snd (process_char hal tick c s)) @
           asm (take (unat (rx_index (fst (process_char hal tick c s))))
                     (rx_buffer (fst (process_char hal tick c s)))) cs =
         asm (take (unat (rx_index s)) (rx_buffer s)) (c # cs)"
proof (cases "c = CHR 0x0A \<or> c = CHR 0x0D")
  case True
  show ?thesis
  proof (cases "unat (rx_index s) = 0")
    case z: True
    with True show ?thesis
      using assms by (simp add: process_char_def rx_index_zero)
  next
    case nz: False
    from assms have "rx_buffer s \<noteq> []" by auto
    with nz True assms show ?thesis
      by (simp add: process_char_def rx_index_zero split_beta Let_def process_led_command_rx
          c_str_terminated)
  qed
next
  case False
  show ?thesis
  proof (cases "unat (rx_index s) \<ge> 63")
    case True
    with False assms show ?thesis
      by (simp add: process_char_def uart2_transmit_def Let_def UART_RX_BUFFER_SIZE_def)
  next
    case F2: False
    then have n: "unat (rx_index s + 1) = unat (rx_index s) + 1"
      by (simp add: rx_index_next)
    from F2 False assms show ?thesis
      by (simp add: process_char_def UART_RX_BUFFER_SIZE_def n take_Suc_conv_app_nth)
  qed
qed

lemma feed_bytes_asm:
  assumes "length (rx_buffer s) = 64" and "unat (rx_index s) < 64"
  shows "assembler_output (snd (feed_bytes hal inputs s)) =
         asm (take (unat (rx_index s)) (rx_buffer s)) (map fst inputs)"
  using assms
proof (induction inputs arbitrary: s)
  case Nil
  then show ?case by simp
next
  case (Cons inp inputs)
  obtain c tick where inp: "inp = (c, tick)" by (cases inp)
  let ?s' = "fst (process_char hal tick c s)"
  note P = process_char_asm [OF Cons.prems, of hal tick c "map fst inputs"]
  from P have "assembler_output (snd (feed_bytes hal inputs ?s')) =
      asm (take (unat (rx_index ?s')) (rx_buffer ?s')) (map fst inputs)"
    by (intro Cons.IH) simp_all
  with P show ?case
    by (simp add: inp split_beta assembler_output_append del: asm.simps)
qed


lemma c_str_no_NUL: "NUL \<notin> set seg \<Longrightarrow> c_str seg = seg"
  unfolding c_str_def by (induction seg) auto

lemma segment_output_cases:
  "segment_output [] = []"
  "0 < length seg \<and> length seg < 64 \<Longrightarrow> segment_output seg = [Line (c_str seg)]"
  "length seg = 64 \<Longrightarrow> segment_output seg = [Overflow]"
  "64 < length seg \<and> length seg < 128 \<Longrightarrow>
     segment_output seg = [Overflow, Line (c_str (drop 64 seg))]"
proof -
  show "segment_output [] = []"
    by (simp add: segment_output_def)
  show "segment_output seg = [Line (c_str seg)]" if "0 < length seg \<and> length seg < 64"
    using that by (simp add: segment_output_def)
  show "segment_output seg = [Overflow]" if "length seg = 64"
    using that by (simp add: segment_output_def)
  show "segment_output seg = [Overflow, Line (c_str (drop 64 seg))]"
    if h: "64 < length seg \<and> length seg < 128"
  proof -
    have d: "length seg div 64 = 1"
      by (rule div_nat_eqI) (use h in simp_all)
    have "length seg mod 64 = length seg - 64"
      using d by (simp add: modulo_nat_def)
    with h have m: "length seg mod 64 \<noteq> 0" by simp
    show ?thesis
      unfolding segment_output_def d using m by simp
  qed
qed


text \<open>
  C1 (as amended). Fed one byte at a time from an empty buffer, the assembler yields, for
  the segments of the input that a \<open>\n\<close> or \<open>\r\<close> ends, in order: nothing for an
  empty segment; for a segment of 1 to 63 bytes, one line, the segment read as a C string
  (the segment itself when it holds no NUL byte); for a longer segment, one overflow for
  every 64 bytes of it, and then the bytes after the last overflow, when there are any,
  as a line. The unterminated end of the input yields its overflows and no line.
\<close>

theorem line_assembler_output:
  assumes "length (rx_buffer s) = UART_RX_BUFFER_SIZE" and "rx_index s = 0"
  shows
   "assembler_output (snd (feed_bytes hal inputs s)) =
      concat (map segment_output (fst (split_lines (map fst inputs)))) @
      replicate (length (snd (split_lines (map fst inputs))) div 64) Overflow \<and>
    segment_output [] = [] \<and>
    (0 < length seg \<and> length seg < 64 \<longrightarrow> segment_output seg = [Line (c_str seg)]) \<and>
    (NUL \<notin> set seg \<longrightarrow> c_str seg = seg) \<and>
    (length seg = 64 \<longrightarrow> segment_output seg = [Overflow]) \<and>
    (64 < length seg \<and> length seg < 128 \<longrightarrow>
       segment_output seg = [Overflow, Line (c_str (drop 64 seg))])"
proof -
  have p: "take (unat (rx_index s)) (rx_buffer s) = []"
    using assms(2) by simp
  have "assembler_output (snd (feed_bytes hal inputs s)) = asm [] (map fst inputs)"
    using feed_bytes_asm [of s hal inputs] assms
    unfolding p by (simp add: UART_RX_BUFFER_SIZE_def)
  also have "\<dots> = concat (map segment_output (fst (split_lines (map fst inputs)))) @
      replicate (length (snd (split_lines (map fst inputs))) div 64) Overflow"
    using asm_split [of "[]" "map fst inputs"] unfolding split_lines_def by simp
  finally have main: "assembler_output (snd (feed_bytes hal inputs s)) =
      concat (map segment_output (fst (split_lines (map fst inputs)))) @
      replicate (length (snd (split_lines (map fst inputs))) div 64) Overflow" .
  show ?thesis
    using main segment_output_cases c_str_no_NUL [of seg]
    by blast
qed

theorem line_assembler_output_witness:
  "length (rx_buffer comm_init) = UART_RX_BUFFER_SIZE \<and> rx_index comm_init = 0 \<and>
   assembler_output (snd (feed_bytes (\<lambda>k. HAL_OK)
      (map (\<lambda>c. (c, 0)) ([CHR 0x0D] @ ''PING'' @ [CHR 0x0D, CHR 0x0A] @ ''LED_CMD:1'' @
                          [CHR 0x0A] @ ''ab'')) comm_init)) =
   [Line ''PING'', Line ''LED_CMD:1'']"
proof -
  have a: "length (rx_buffer comm_init) = UART_RX_BUFFER_SIZE" and b: "rx_index comm_init = 0"
    by (simp_all add: comm_init_def)
  have m: "map fst (map (\<lambda>c. (c, 0 :: TickType_t)) xs) = xs" for xs :: string
    by (simp add: comp_def)
  show ?thesis
    using line_assembler_output [OF a b, of "\<lambda>k. HAL_OK"
        "map (\<lambda>c. (c, 0)) ([CHR 0x0D] @ ''PING'' @ [CHR 0x0D, CHR 0x0A] @ ''LED_CMD:1'' @
                          [CHR 0x0A] @ ''ab'')" "''PING''"] a b
    unfolding m
    by (simp add: split_lines_def segment_output_def c_str_def NUL_def)
qed


text \<open>
  The claim as first stated lets a segment that reaches the capacity yield no line. After
  the overflow the buffer starts afresh, so the 65th byte of a segment is yielded as a
  line of its own.
\<close>

theorem line_assembler_long_segment_counterexample:
  "assembler_output (snd (feed_bytes (\<lambda>k. HAL_OK)
      (map (\<lambda>c. (c, 0)) (replicate 65 CHR ''a'' @ [CHR 0x0A])) comm_init)) =
   [Overflow, Line ''a'']"
  by code_simp

subsection \<open>The task loop: link health and the stream-buffer warning\<close>

lemma send_with_retry_quiet:
  "count_list (snd (snd (send_with_retry hal frame s))) (Print Log_StreamBufferWarning) = 0 \<and>
   link_events (snd (snd (send_with_retry hal frame s))) = [] \<and>
   buffer_warning_shown (fst (snd (send_with_retry hal frame s))) = buffer_warning_shown s \<and>
   uart_connection_ok (fst (snd (send_with_retry hal frame s))) = uart_connection_ok s \<and>
   waiting_for_pong (fst (snd (send_with_retry hal frame s))) = waiting_for_pong s"
  by (simp add: send_with_retry_cases Let_def failed_attempts_def)

lemma link_events_append: "link_events (xs @ ys) = link_events xs @ link_events ys"
  by (induction xs rule: link_events.induct) simp_all

lemma led_switch_quiet:
  "buffer_warning_shown (fst (led_switch cmd s)) = buffer_warning_shown s \<and>
   uart_connection_ok (fst (led_switch cmd s)) = uart_connection_ok s \<and>
   waiting_for_pong (fst (led_switch cmd s)) = waiting_for_pong s \<and>
   snd (snd (led_switch cmd s)) \<noteq> Log_StreamBufferWarning \<and>
   link_events [Print (snd (snd (led_switch cmd s)))] = []"
  by (simp add: led_switch_state) (simp add: led_switch_def)

lemma process_led_command_warning:
  "count_list (snd (process_led_command hal tick line s)) (Print Log_StreamBufferWarning) = 0 \<and>
   buffer_warning_shown (fst (process_led_command hal tick line s)) = buffer_warning_shown s"
  by (simp add: process_led_command_def split_beta Let_def send_with_retry_quiet
      led_switch_quiet)

lemma process_led_command_link:
  "link_events (snd (process_led_command hal tick line s)) =
     (if take 10 line = ''STM32_PONG'' \<and> \<not> uart_connection_ok s then [True] else []) \<and>
   uart_connection_ok (fst (process_led_command hal tick line s)) =
     (take 10 line = ''STM32_PONG'' \<or> uart_connection_ok s)"
  using prefix_exclusive(2) [of line]
  by (auto simp add: process_led_command_def split_beta Let_def send_with_retry_quiet
      led_switch_quiet strncmp_eq_take link_events_append)


lemma process_char_warning:
  "count_list (snd (process_char hal tick c s)) (Print Log_StreamBufferWarning) = 0 \<and>
   buffer_warning_shown (fst (process_char hal tick c s)) = buffer_warning_shown s"
  by (simp add: process_char_def split_beta Let_def process_led_command_warning
      uart2_transmit_def)

lemma first_jitter_quiet:
  "buffer_warning_shown (first_jitter s) = buffer_warning_shown s \<and>
   uart_connection_ok (first_jitter s) = uart_connection_ok s \<and>
   waiting_for_pong (first_jitter s) = waiting_for_pong s"
  by (simp add: first_jitter_def get_random_jitter_def Let_def)

lemma ping_send_warning:
  "count_list (snd (ping_send hal now s)) (Print Log_StreamBufferWarning) = 0 \<and>
   buffer_warning_shown (fst (ping_send hal now s)) = buffer_warning_shown s"
  by (simp add: ping_send_def split_beta Let_def send_with_retry_quiet first_jitter_quiet
      get_random_jitter_def)

lemma ping_send_link:
  "link_events (snd (ping_send hal now s)) = [] \<and>
   uart_connection_ok (fst (ping_send hal now s)) = uart_connection_ok s"
  by (simp add: ping_send_def split_beta Let_def send_with_retry_quiet first_jitter_quiet
      get_random_jitter_def link_events_append)

lemma ping_timeout_check_warning:
  "count_list (snd (ping_timeout_check now s)) (Print Log_StreamBufferWarning) = 0 \<and>
   buffer_warning_shown (fst (ping_timeout_check now s)) = buffer_warning_shown s"
  by (simp add: ping_timeout_check_def)

lemma ping_timeout_check_cases:
  "ping_timeout_check now s =
     (if waiting_for_pong s \<and> now - last_ping_sent s \<ge> 1000 then
        (if uart_connection_ok s
         then (s\<lparr>uart_connection_ok := False, waiting_for_pong := False\<rparr>,
               [Print Log_NoPongAlert, Print Log_ConnectionBroken])
         else (s\<lparr>waiting_for_pong := False\<rparr>, []))
      else (s, []))"
  by (simp add: ping_timeout_check_def pdMS_TO_TICKS_def configTICK_RATE_HZ_def
      STM32_PING_TIMEOUT_MS_def)

lemma ping_timeout_check_link:
  "link_events (snd (ping_timeout_check now s)) =
     (if waiting_for_pong s \<and> now - last_ping_sent s \<ge> 1000 \<and> uart_connection_ok s
      then [False] else []) \<and>
   uart_connection_ok (fst (ping_timeout_check now s)) =
     (uart_connection_ok s \<and> \<not> (waiting_for_pong s \<and> now - last_ping_sent s \<ge> 1000))"
  by (simp add: ping_timeout_check_cases)

lemma buffer_warning_cases:
  "count_list (snd (buffer_warning avail s)) (Print Log_StreamBufferWarning) =
     (if avail > 64 \<and> \<not> buffer_warning_shown s then 1 else 0) \<and>
   buffer_warning_shown (fst (buffer_warning avail s)) = (buffer_warning_shown s \<or> avail > 64) \<and>
   link_events (snd (buffer_warning avail s)) = [] \<and>
   uart_connection_ok (fst (buffer_warning avail s)) = uart_connection_ok s"
  by (simp add: buffer_warning_def)

lemma process_char_link:
  "edge_triggered (uart_connection_ok s) (link_events (snd (process_char hal tick c s))) \<and>
   uart_connection_ok (fst (process_char hal tick c s)) =
     flag_after (uart_connection_ok s) (link_events (snd (process_char hal tick c s)))"
  by (auto simp add: process_char_def split_beta Let_def process_led_command_link
      uart2_transmit_def flag_after_def)

lemma comm_task_iteration_warning:
  "count_list (snd (comm_task_iteration hal wd_id inp (s, wd))) (Print Log_StreamBufferWarning) =
     (if above_high_water inp \<and> \<not> buffer_warning_shown s then 1 else 0) \<and>
   buffer_warning_shown (fst (fst (comm_task_iteration hal wd_id inp (s, wd)))) =
     (buffer_warning_shown s \<or> above_high_water inp)"
  by (cases "received inp")
     (simp_all add: comm_task_iteration_def split_beta Let_def above_high_water_def
       ping_send_warning ping_timeout_check_warning buffer_warning_cases process_char_warning)


lemma edge_triggered_append:
  "edge_triggered ok (xs @ ys) \<longleftrightarrow> edge_triggered ok xs \<and> edge_triggered (flag_after ok xs) ys"
  by (induction xs arbitrary: ok) (auto simp: flag_after_def)

lemma flag_after_append: "flag_after ok (xs @ ys) = flag_after (flag_after ok xs) ys"
  by (simp add: flag_after_def)

lemma ping_timeout_check_edge:
  "edge_triggered (uart_connection_ok s) (link_events (snd (ping_timeout_check now s))) \<and>
   uart_connection_ok (fst (ping_timeout_check now s)) =
     flag_after (uart_connection_ok s) (link_events (snd (ping_timeout_check now s)))"
  by (auto simp add: ping_timeout_check_link flag_after_def)

lemma comm_task_iteration_link:
  "edge_triggered (uart_connection_ok s)
     (link_events (snd (comm_task_iteration hal wd_id inp (s, wd)))) \<and>
   uart_connection_ok (fst (fst (comm_task_iteration hal wd_id inp (s, wd)))) =
     flag_after (uart_connection_ok s)
       (link_events (snd (comm_task_iteration hal wd_id inp (s, wd))))"
proof -
  let ?s1 = "fst (ping_send hal (loop_tick inp) s)"
  let ?s2 = "fst (ping_timeout_check (loop_tick inp) ?s1)"
  have ok1: "uart_connection_ok ?s1 = uart_connection_ok s"
    by (simp add: ping_send_link)
  note t = ping_timeout_check_edge [of ?s1 "loop_tick inp"]
  show ?thesis
  proof (cases "received inp")
    case None
    with t show ?thesis
      by (simp add: comm_task_iteration_def split_beta Let_def link_events_append
          ping_send_link ok1)
  next
    case (Some c)
    let ?s3 = "fst (buffer_warning (bytes_available inp) ?s2)"
    have ok3: "uart_connection_ok ?s3 = uart_connection_ok ?s2"
      by (simp add: buffer_warning_cases)
    note p = process_char_link [of ?s3 hal "line_tick inp" c]
    from t p Some show ?thesis
      by (simp add: comm_task_iteration_def split_beta Let_def link_events_append
          ping_send_link ok1 ok3 buffer_warning_cases edge_triggered_append flag_after_append)
  qed
qed

lemma comm_task_run_link:
  "edge_triggered (uart_connection_ok (fst sw)) (link_events (snd (comm_task_run hal wd_id inps sw))) \<and>
   uart_connection_ok (fst (fst (comm_task_run hal wd_id inps sw))) =
     flag_after (uart_connection_ok (fst sw)) (link_events (snd (comm_task_run hal wd_id inps sw)))"
proof (induction inps arbitrary: sw)
  case Nil
  then show ?case by (simp add: flag_after_def)
next
  case (Cons inp inps)
  obtain s wd where sw: "sw = (s, wd)" by (cases sw)
  let ?sw' = "fst (comm_task_iteration hal wd_id inp (s, wd))"
  from comm_task_iteration_link [of s hal wd_id inp wd] Cons.IH [of ?sw']
  show ?case
    by (simp add: sw split_beta link_events_append edge_triggered_append flag_after_append)
qed

lemma comm_task_run_warning:
  "count_list (snd (comm_task_run hal wd_id inps sw)) (Print Log_StreamBufferWarning) =
     (if \<not> buffer_warning_shown (fst sw) \<and> (\<exists>inp \<in> set inps. above_high_water inp) then 1 else 0) \<and>
   buffer_warning_shown (fst (fst (comm_task_run hal wd_id inps sw))) =
     (buffer_warning_shown (fst sw) \<or> (\<exists>inp \<in> set inps. above_high_water inp))"
proof (induction inps arbitrary: sw)
  case Nil
  then show ?case by simp
next
  case (Cons inp inps)
  obtain s wd where sw: "sw = (s, wd)" by (cases sw)
  let ?sw' = "fst (comm_task_iteration hal wd_id inp (s, wd))"
  from comm_task_iteration_warning [of hal wd_id inp s wd] Cons.IH [of ?sw']
  show ?case
    by (auto simp add: sw split_beta)
qed

lemma sent_frames_failed:
  "st \<noteq> HAL_OK \<Longrightarrow> sent_frames (Transmit u f t st # evs) = sent_frames evs"
  by (cases st; cases u) simp_all

lemma first_jitter_fields:
  "rx_buffer (first_jitter s) = rx_buffer s \<and> rx_index (first_jitter s) = rx_index s \<and>
   last_ping_sent (first_jitter s) = last_ping_sent s \<and> tx_calls (first_jitter s) = tx_calls s"
  by (simp add: first_jitter_def get_random_jitter_def Let_def)

lemma ping_send_rx:
  "rx_buffer (fst (ping_send hal now s)) = rx_buffer s \<and>
   rx_index (fst (ping_send hal now s)) = rx_index s"
  by (simp add: ping_send_def split_beta Let_def send_with_retry_rx first_jitter_fields
      get_random_jitter_def)

lemma ping_timeout_check_rx:
  "rx_buffer (fst (ping_timeout_check now s)) = rx_buffer s \<and>
   rx_index (fst (ping_timeout_check now s)) = rx_index s"
  by (simp add: ping_timeout_check_def)

lemma buffer_warning_fields:
  "rx_buffer (fst (buffer_warning avail s)) = rx_buffer s \<and>
   rx_index (fst (buffer_warning avail s)) = rx_index s \<and>
   waiting_for_pong (fst (buffer_warning avail s)) = waiting_for_pong s"
  by (simp add: buffer_warning_def)

lemma probe_overdue_ticks:
  "probe_overdue hal inp s =
     (waiting_for_pong (fst (ping_send hal (loop_tick inp) s)) \<and>
      loop_tick inp - last_ping_sent (fst (ping_send hal (loop_tick inp) s)) \<ge> 1000)"
  by (simp add: probe_overdue_def Let_def pdMS_TO_TICKS_def configTICK_RATE_HZ_def
      STM32_PING_TIMEOUT_MS_def)

lemma probe_overdue_iff:
  "probe_overdue hal inp s \<longleftrightarrow>
     waiting_for_pong s \<and> loop_tick inp - last_ping_sent s \<ge> 1000 \<and>
     sent_frames (snd (ping_send hal (loop_tick inp) s)) = []"
proof (cases "ping_due (loop_tick inp) (first_jitter s)")
  case False
  then show ?thesis
    by (simp add: probe_overdue_ticks ping_send_def first_jitter_quiet first_jitter_fields)
next
  case True
  then show ?thesis
    by (simp add: probe_overdue_ticks ping_send_def send_with_retry_cases Let_def
        first_jitter_quiet first_jitter_fields get_random_jitter_def failed_attempts_def
        sent_frames_failed)
qed

lemma process_led_command_waiting:
  "waiting_for_pong (fst (process_led_command hal tick line s)) =
     (waiting_for_pong s \<and> take 10 line \<noteq> ''STM32_PONG'')"
  using prefix_exclusive(2) [of line]
  by (auto simp add: process_led_command_def split_beta Let_def send_with_retry_quiet
      led_switch_quiet strncmp_eq_take)

lemma process_char_transitions:
  assumes "received inp = Some c"
  shows
  "link_events (snd (process_char hal tick c s)) =
     (if pong_received inp s \<and> \<not> uart_connection_ok s then [True] else []) \<and>
   uart_connection_ok (fst (process_char hal tick c s)) =
     (pong_received inp s \<or> uart_connection_ok s) \<and>
   waiting_for_pong (fst (process_char hal tick c s)) =
     (waiting_for_pong s \<and> \<not> pong_received inp s)"
  using assms
  by (auto simp add: process_char_def split_beta Let_def process_led_command_link
      process_led_command_waiting uart2_transmit_def pong_received_def)

lemma pong_received_rx:
  "rx_buffer s' = rx_buffer s \<Longrightarrow> rx_index s' = rx_index s \<Longrightarrow>
   pong_received inp s' = pong_received inp s"
  by (simp add: pong_received_def split: option.splits)

lemma ping_timeout_check_waiting:
  "waiting_for_pong (fst (ping_timeout_check now s)) =
     (waiting_for_pong s \<and> \<not> now - last_ping_sent s \<ge> 1000)"
  by (auto simp add: ping_timeout_check_cases)

lemma comm_task_iteration_transitions:
  "link_events (snd (comm_task_iteration hal wd_id inp (s, wd))) =
     (if probe_overdue hal inp s \<and> uart_connection_ok s then [False] else []) @
     (if pong_received inp s \<and> (probe_overdue hal inp s \<or> \<not> uart_connection_ok s)
      then [True] else []) \<and>
   uart_connection_ok (fst (fst (comm_task_iteration hal wd_id inp (s, wd)))) =
     (pong_received inp s \<or> uart_connection_ok s \<and> \<not> probe_overdue hal inp s) \<and>
   waiting_for_pong (fst (fst (comm_task_iteration hal wd_id inp (s, wd)))) =
     (waiting_for_pong (fst (ping_send hal (loop_tick inp) s)) \<and>
      \<not> probe_overdue hal inp s \<and> \<not> pong_received inp s)"
proof -
  let ?s1 = "fst (ping_send hal (loop_tick inp) s)"
  let ?s2 = "fst (ping_timeout_check (loop_tick inp) ?s1)"
  have ok1: "uart_connection_ok ?s1 = uart_connection_ok s"
    by (simp add: ping_send_link)
  have over: "probe_overdue hal inp s =
      (waiting_for_pong ?s1 \<and> loop_tick inp - last_ping_sent ?s1 \<ge> 1000)"
    by (rule probe_overdue_ticks)
  have ev2: "link_events (snd (ping_timeout_check (loop_tick inp) ?s1)) =
      (if probe_overdue hal inp s \<and> uart_connection_ok s then [False] else [])"
    and ok2: "uart_connection_ok ?s2 = (uart_connection_ok s \<and> \<not> probe_overdue hal inp s)"
    and w2: "waiting_for_pong ?s2 = (waiting_for_pong ?s1 \<and> \<not> probe_overdue hal inp s)"
    using ping_timeout_check_link [of "loop_tick inp" ?s1]
      ping_timeout_check_waiting [of "loop_tick inp" ?s1]
    by (auto simp add: over ok1)
  show ?thesis
  proof (cases "received inp")
    case None
    then have np: "\<not> pong_received inp s"
      by (simp add: pong_received_def)
    from None ev2 ok2 w2 np show ?thesis
      by (simp add: comm_task_iteration_def split_beta Let_def link_events_append
          ping_send_link)
  next
    case (Some c)
    let ?s3 = "fst (buffer_warning (bytes_available inp) ?s2)"
    have ok3: "uart_connection_ok ?s3 = uart_connection_ok ?s2"
      and w3: "waiting_for_pong ?s3 = waiting_for_pong ?s2"
      by (simp_all add: buffer_warning_cases buffer_warning_fields)
    have p3: "pong_received inp ?s3 = pong_received inp s"
      by (rule pong_received_rx)
         (simp_all add: buffer_warning_fields ping_timeout_check_rx ping_send_rx)
    note p = process_char_transitions [OF Some, of hal "line_tick inp" ?s3]
    from p ev2 Some show ?thesis
      by (auto simp add: comm_task_iteration_def split_beta Let_def link_events_append
          ping_send_link buffer_warning_cases ok3 w3 p3 ok2 w2)
  qed
qed

lemma comm_task_run_snoc:
  "comm_task_run hal wd_id (pre @ [inp]) sw =
     (fst (comm_task_iteration hal wd_id inp (fst (comm_task_run hal wd_id pre sw))),
      snd (comm_task_run hal wd_id pre sw) @
      snd (comm_task_iteration hal wd_id inp (fst (comm_task_run hal wd_id pre sw))))"
  by (induction pre arbitrary: sw) (simp_all add: split_beta)

lemma loop_passes_snoc:
  "loop_passes hal wd_id (pre @ [inp]) sw =
     loop_passes hal wd_id pre sw @ [(inp, fst (fst (comm_task_run hal wd_id pre sw)))]"
  by (induction pre arbitrary: sw) (simp_all add: split_beta)

lemma comm_task_run_down_once:
  assumes "\<forall>(inp, s) \<in> set (loop_passes hal wd_id inps sw). \<not> pong_received inp s"
  shows "link_events (snd (comm_task_run hal wd_id inps sw)) =
           (if uart_connection_ok (fst sw) \<and>
               (\<exists>(inp, s) \<in> set (loop_passes hal wd_id inps sw). probe_overdue hal inp s)
            then [False] else []) \<and>
         uart_connection_ok (fst (fst (comm_task_run hal wd_id inps sw))) =
           (uart_connection_ok (fst sw) \<and>
            \<not> (\<exists>(inp, s) \<in> set (loop_passes hal wd_id inps sw). probe_overdue hal inp s))"
  using assms
proof (induction inps arbitrary: sw)
  case Nil
  then show ?case by simp
next
  case (Cons inp inps)
  obtain s wd where sw: "sw = (s, wd)" by (cases sw)
  let ?sw' = "fst (comm_task_iteration hal wd_id inp (s, wd))"
  have np: "\<not> pong_received inp s"
    and rest: "\<forall>(i, t) \<in> set (loop_passes hal wd_id inps ?sw'). \<not> pong_received i t"
    using Cons.prems by (simp_all add: sw)
  from comm_task_iteration_transitions [of hal wd_id inp s wd] Cons.IH [OF rest] np
  show ?case
    by (auto simp add: sw split_beta link_events_append)
qed

lemma comm_task_run_up_once:
  assumes "\<forall>(inp, s) \<in> set (loop_passes hal wd_id inps sw). \<not> probe_overdue hal inp s"
  shows "link_events (snd (comm_task_run hal wd_id inps sw)) =
           (if \<not> uart_connection_ok (fst sw) \<and>
               (\<exists>(inp, s) \<in> set (loop_passes hal wd_id inps sw). pong_received inp s)
            then [True] else []) \<and>
         uart_connection_ok (fst (fst (comm_task_run hal wd_id inps sw))) =
           (uart_connection_ok (fst sw) \<or>
            (\<exists>(inp, s) \<in> set (loop_passes hal wd_id inps sw). pong_received inp s))"
  using assms
proof (induction inps arbitrary: sw)
  case Nil
  then show ?case by simp
next
  case (Cons inp inps)
  obtain s wd where sw: "sw = (s, wd)" by (cases sw)
  let ?sw' = "fst (comm_task_iteration hal wd_id inp (s, wd))"
  have np: "\<not> probe_overdue hal inp s"
    and rest: "\<forall>(i, t) \<in> set (loop_passes hal wd_id inps ?sw'). \<not> probe_overdue hal i t"
    using Cons.prems by (simp_all add: sw)
  from comm_task_iteration_transitions [of hal wd_id inp s wd] Cons.IH [OF rest] np
  show ?case
    by (auto simp add: sw split_beta link_events_append)
qed

text \<open>
  C4. The timeout check logs the down transition (the alert and the line after it) and
  clears \<open>uart_connection_ok\<close> only when the flag is set, a reply is awaited and 1000
  ticks have passed since the probe; it clears \<open>waiting_for_pong\<close> whenever the
  timeout has passed. The dispatcher logs the recovery and sets the flag only on a line
  that starts with \<open>STM32_PONG\<close> received while the flag is clear. Over any run of the
  task loop the logged transitions are edge-triggered: each goes to the value the flag
  does not have, so a down transition is never logged twice without a recovery between
  them, nor a recovery twice without a down transition; and the flag always has the value
  of the last logged transition.

  A pass of the loop logs exactly these transitions: the down transition when it finds the
  probe overdue with the flag set, then the recovery when it completes a \<open>STM32_PONG\<close>
  line with the flag clear at that moment; the flag and \<open>waiting_for_pong\<close> after the
  pass follow, and \<open>waiting_for_pong\<close> is clear after every pass that found the probe
  overdue, whatever the flag. The probe is overdue exactly when the reply was awaited
  before the pass, 1000 ticks or more have passed since the probe, and no new probe was
  accepted in the pass. A run is its passes in sequence. In a run
  that completes no \<open>STM32_PONG\<close> line, the down transition is logged once if the flag
  was set and some pass finds the probe overdue, and never again, however often the
  timeout recurs; in a run where no pass finds the probe overdue, the recovery is logged
  once if the flag was clear and some pass completes a \<open>STM32_PONG\<close> line, and never
  again, however many replies follow.
\<close>

theorem link_health_edge_triggered:
  "ping_timeout_check now s =
     (if waiting_for_pong s \<and> now - last_ping_sent s \<ge> 1000 then
        (if uart_connection_ok s
         then (s\<lparr>uart_connection_ok := False, waiting_for_pong := False\<rparr>,
               [Print Log_NoPongAlert, Print Log_ConnectionBroken])
         else (s\<lparr>waiting_for_pong := False\<rparr>, []))
      else (s, [])) \<and>
   pdMS_TO_TICKS STM32_PING_TIMEOUT_MS = 1000 \<and>
   link_events (snd (process_led_command hal tick line s)) =
     (if take 10 line = ''STM32_PONG'' \<and> \<not> uart_connection_ok s then [True] else []) \<and>
   uart_connection_ok (fst (process_led_command hal tick line s)) =
     (take 10 line = ''STM32_PONG'' \<or> uart_connection_ok s) \<and>
   edge_triggered (uart_connection_ok (fst sw))
     (link_events (snd (comm_task_run hal wd_id inps sw))) \<and>
   uart_connection_ok (fst (fst (comm_task_run hal wd_id inps sw))) =
     flag_after (uart_connection_ok (fst sw))
       (link_events (snd (comm_task_run hal wd_id inps sw))) \<and>
   link_events (snd (comm_task_iteration hal wd_id inp sw)) =
     (if probe_overdue hal inp (fst sw) \<and> uart_connection_ok (fst sw) then [False] else []) @
     (if pong_received inp (fst sw) \<and>
         (probe_overdue hal inp (fst sw) \<or> \<not> uart_connection_ok (fst sw))
      then [True] else []) \<and>
   uart_connection_ok (fst (fst (comm_task_iteration hal wd_id inp sw))) =
     (pong_received inp (fst sw) \<or>
      uart_connection_ok (fst sw) \<and> \<not> probe_overdue hal inp (fst sw)) \<and>
   waiting_for_pong (fst (fst (comm_task_iteration hal wd_id inp sw))) =
     (waiting_for_pong (fst (ping_send hal (loop_tick inp) (fst sw))) \<and>
      \<not> probe_overdue hal inp (fst sw) \<and> \<not> pong_received inp (fst sw)) \<and>
   probe_overdue hal inp (fst sw) =
     (waiting_for_pong (fst sw) \<and> loop_tick inp - last_ping_sent (fst sw) \<ge> 1000 \<and>
      sent_frames (snd (ping_send hal (loop_tick inp) (fst sw))) = []) \<and>
   comm_task_run hal wd_id (pre @ [inp]) sw =
     (fst (comm_task_iteration hal wd_id inp (fst (comm_task_run hal wd_id pre sw))),
      snd (comm_task_run hal wd_id pre sw) @
      snd (comm_task_iteration hal wd_id inp (fst (comm_task_run hal wd_id pre sw)))) \<and>
   loop_passes hal wd_id (pre @ [inp]) sw =
     loop_passes hal wd_id pre sw @ [(inp, fst (fst (comm_task_run hal wd_id pre sw)))] \<and>
   ((\<forall>(i, t) \<in> set (loop_passes hal wd_id inps sw). \<not> pong_received i t) \<longrightarrow>
      link_events (snd (comm_task_run hal wd_id inps sw)) =
        (if uart_connection_ok (fst sw) \<and>
            (\<exists>(i, t) \<in> set (loop_passes hal wd_id inps sw). probe_overdue hal i t)
         then [False] else [])) \<and>
   ((\<forall>(i, t) \<in> set (loop_passes hal wd_id inps sw). \<not> probe_overdue hal i t) \<longrightarrow>
      link_events (snd (comm_task_run hal wd_id inps sw)) =
        (if \<not> uart_connection_ok (fst sw) \<and>
            (\<exists>(i, t) \<in> set (loop_passes hal wd_id inps sw). pong_received i t)
         then [True] else []))"
proof -
  obtain s0 wd0 where sw: "sw = (s0, wd0)" by (cases sw)
  have old:
   "ping_timeout_check now s =
     (if waiting_for_pong s \<and> now - last_ping_sent s \<ge> 1000 then
        (if uart_connection_ok s
         then (s\<lparr>uart_connection_ok := False, waiting_for_pong := False\<rparr>,
               [Print Log_NoPongAlert, Print Log_ConnectionBroken])
         else (s\<lparr>waiting_for_pong := False\<rparr>, []))
      else (s, [])) \<and>
    pdMS_TO_TICKS STM32_PING_TIMEOUT_MS = 1000 \<and>
    link_events (snd (process_led_command hal tick line s)) =
     (if take 10 line = ''STM32_PONG'' \<and> \<not> uart_connection_ok s then [True] else []) \<and>
    uart_connection_ok (fst (process_led_command hal tick line s)) =
     (take 10 line = ''STM32_PONG'' \<or> uart_connection_ok s) \<and>
    edge_triggered (uart_connection_ok (fst sw))
     (link_events (snd (comm_task_run hal wd_id inps sw))) \<and>
    uart_connection_ok (fst (fst (comm_task_run hal wd_id inps sw))) =
     flag_after (uart_connection_ok (fst sw))
       (link_events (snd (comm_task_run hal wd_id inps sw)))"
    using ping_timeout_check_cases [of now s] process_led_command_link [of hal tick line s]
      comm_task_run_link [of sw hal wd_id inps]
    by (simp add: pdMS_TO_TICKS_def configTICK_RATE_HZ_def STM32_PING_TIMEOUT_MS_def)
  have pass:
   "link_events (snd (comm_task_iteration hal wd_id inp sw)) =
     (if probe_overdue hal inp (fst sw) \<and> uart_connection_ok (fst sw) then [False] else []) @
     (if pong_received inp (fst sw) \<and>
         (probe_overdue hal inp (fst sw) \<or> \<not> uart_connection_ok (fst sw))
      then [True] else []) \<and>
    uart_connection_ok (fst (fst (comm_task_iteration hal wd_id inp sw))) =
     (pong_received inp (fst sw) \<or>
      uart_connection_ok (fst sw) \<and> \<not> probe_overdue hal inp (fst sw)) \<and>
    waiting_for_pong (fst (fst (comm_task_iteration hal wd_id inp sw))) =
     (waiting_for_pong (fst (ping_send hal (loop_tick inp) (fst sw))) \<and>
      \<not> probe_overdue hal inp (fst sw) \<and> \<not> pong_received inp (fst sw))"
    using comm_task_iteration_transitions [of hal wd_id inp s0 wd0]
    by (simp only: sw fst_conv)
  have overdue:
   "probe_overdue hal inp (fst sw) =
     (waiting_for_pong (fst sw) \<and> loop_tick inp - last_ping_sent (fst sw) \<ge> 1000 \<and>
      sent_frames (snd (ping_send hal (loop_tick inp) (fst sw))) = [])"
    by (rule probe_overdue_iff)
  note run = comm_task_run_snoc [of hal wd_id pre inp sw] loop_passes_snoc [of hal wd_id pre inp sw]
  have down:
   "(\<forall>(i, t) \<in> set (loop_passes hal wd_id inps sw). \<not> pong_received i t) \<longrightarrow>
      link_events (snd (comm_task_run hal wd_id inps sw)) =
        (if uart_connection_ok (fst sw) \<and>
            (\<exists>(i, t) \<in> set (loop_passes hal wd_id inps sw). probe_overdue hal i t)
         then [False] else [])"
    using comm_task_run_down_once [of hal wd_id inps sw] by blast
  have up:
   "(\<forall>(i, t) \<in> set (loop_passes hal wd_id inps sw). \<not> probe_overdue hal i t) \<longrightarrow>
      link_events (snd (comm_task_run hal wd_id inps sw)) =
        (if \<not> uart_connection_ok (fst sw) \<and>
            (\<exists>(i, t) \<in> set (loop_passes hal wd_id inps sw). pong_received i t)
         then [True] else [])"
    using comm_task_run_up_once [of hal wd_id inps sw] by blast
  from old pass overdue run down up show ?thesis
    by blast
qed

theorem link_health_edge_triggered_witness:
  "ping_timeout_check 6000 (comm_init\<lparr>waiting_for_pong := True, last_ping_sent := 5000\<rparr>) =
     (comm_init\<lparr>waiting_for_pong := True, last_ping_sent := 5000,
                uart_connection_ok := False, waiting_for_pong := False\<rparr>,
      [Print Log_NoPongAlert, Print Log_ConnectionBroken]) \<and>
   link_events (snd (process_led_command (\<lambda>k. HAL_OK) 6050 ''STM32_PONG''
      (comm_init\<lparr>waiting_for_pong := True, last_ping_sent := 5000\<rparr>))) = [] \<and>
   link_events (snd (process_led_command (\<lambda>k. HAL_OK) 6050 ''STM32_PONG''
      (comm_init\<lparr>uart_connection_ok := False\<rparr>))) = [True] \<and>
   uart_connection_ok (fst (process_led_command (\<lambda>k. HAL_OK) 6050 ''STM32_PONG''
      (comm_init\<lparr>uart_connection_ok := False\<rparr>))) \<and>
   edge_triggered True (link_events (snd (comm_task_run (\<lambda>k. HAL_OK) 0
      [\<lparr>loop_tick = 6000, received = None, bytes_available = 0,
        feed_tick = 6001, line_tick = 6001\<rparr>]
      (comm_init\<lparr>waiting_for_pong := True, last_ping_sent := 5000\<rparr>, fst watchdog_init)))) \<and>
   link_events (snd (comm_task_iteration (\<lambda>k. HAL_OK) 0
      \<lparr>loop_tick = 6000, received = None, bytes_available = 0,
        feed_tick = 6001, line_tick = 6001\<rparr>
      (comm_init\<lparr>waiting_for_pong := True, last_ping_sent := 5000\<rparr>, fst watchdog_init))) =
     [False] \<and>
   \<not> waiting_for_pong (fst (fst (comm_task_iteration (\<lambda>k. HAL_OK) 0
      \<lparr>loop_tick = 6000, received = None, bytes_available = 0,
        feed_tick = 6001, line_tick = 6001\<rparr>
      (comm_init\<lparr>waiting_for_pong := True, last_ping_sent := 5000,
                 uart_connection_ok := False\<rparr>, fst watchdog_init)))) \<and>
   link_events (snd (comm_task_run (\<lambda>k. HAL_OK) 0
      [\<lparr>loop_tick = 6000, received = None, bytes_available = 0,
        feed_tick = 6001, line_tick = 6001\<rparr>,
       \<lparr>loop_tick = 20000, received = None, bytes_available = 0,
        feed_tick = 20001, line_tick = 20001\<rparr>,
       \<lparr>loop_tick = 21000, received = None, bytes_available = 0,
        feed_tick = 21001, line_tick = 21001\<rparr>]
      (comm_init\<lparr>waiting_for_pong := True, last_ping_sent := 5000\<rparr>, fst watchdog_init))) =
     [False] \<and>
   link_events (snd (comm_task_run (\<lambda>k. HAL_OK) 0
      (map (\<lambda>c. \<lparr>loop_tick = 100, received = Some c, bytes_available = 0,
                   feed_tick = 101, line_tick = 101\<rparr>)
           (''STM32_PONG'' @ [CHR 0x0A] @ ''STM32_PONG'' @ [CHR 0x0A]))
      (comm_init\<lparr>uart_connection_ok := False\<rparr>, fst watchdog_init))) = [True]"
proof -
  let ?hal = "\<lambda>k :: nat. HAL_OK"
  let ?wd = "fst watchdog_init"
  let ?s0 = "comm_init\<lparr>waiting_for_pong := True, last_ping_sent := 5000\<rparr>"
  let ?s0' = "comm_init\<lparr>waiting_for_pong := True, last_ping_sent := 5000,
                 uart_connection_ok := False\<rparr>"
  let ?s1 = "comm_init\<lparr>uart_connection_ok := False\<rparr>"
  let ?p1 = "\<lparr>loop_tick = 6000, received = None, bytes_available = 0,
        feed_tick = 6001, line_tick = 6001\<rparr>"
  let ?p2 = "\<lparr>loop_tick = 20000, received = None, bytes_available = 0,
        feed_tick = 20001, line_tick = 20001\<rparr>"
  let ?p3 = "\<lparr>loop_tick = 21000, received = None, bytes_available = 0,
        feed_tick = 21001, line_tick = 21001\<rparr>"
  let ?qs = "map (\<lambda>c. \<lparr>loop_tick = 100, received = Some c, bytes_available = 0,
                   feed_tick = 101, line_tick = 101\<rparr>)
           (''STM32_PONG'' @ [CHR 0x0A] @ ''STM32_PONG'' @ [CHR 0x0A])"
  have old:
   "ping_timeout_check 6000 ?s0 =
     (comm_init\<lparr>waiting_for_pong := True, last_ping_sent := 5000,
                uart_connection_ok := False, waiting_for_pong := False\<rparr>,
      [Print Log_NoPongAlert, Print Log_ConnectionBroken]) \<and>
    link_events (snd (process_led_command ?hal 6050 ''STM32_PONG'' ?s0)) = [] \<and>
    link_events (snd (process_led_command ?hal 6050 ''STM32_PONG'' ?s1)) = [True] \<and>
    uart_connection_ok (fst (process_led_command ?hal 6050 ''STM32_PONG'' ?s1)) \<and>
    edge_triggered True (link_events (snd (comm_task_run ?hal 0 [?p1] (?s0, ?wd))))"
    using link_health_edge_triggered [where now = 6000 and s = ?s0 and hal = ?hal
        and tick = 6050 and line = "''STM32_PONG''" and sw = "(?s0, ?wd)" and wd_id = 0
        and inps = "[?p1]" and inp = ?p1 and pre = "[]", THEN conjunct1]
      link_health_edge_triggered [where now = 6000 and s = ?s0 and hal = ?hal
        and tick = 6050 and line = "''STM32_PONG''" and sw = "(?s0, ?wd)" and wd_id = 0
        and inps = "[?p1]" and inp = ?p1 and pre = "[]",
        THEN conjunct2, THEN conjunct2, THEN conjunct1]
      link_health_edge_triggered [where now = 6000 and s = ?s0 and hal = ?hal
        and tick = 6050 and line = "''STM32_PONG''" and sw = "(?s0, ?wd)" and wd_id = 0
        and inps = "[?p1]" and inp = ?p1 and pre = "[]",
        THEN conjunct2, THEN conjunct2, THEN conjunct2, THEN conjunct2, THEN conjunct1]
      link_health_edge_triggered [where now = 0 and s = ?s1 and hal = ?hal
        and tick = 6050 and line = "''STM32_PONG''" and sw = "(comm_init, ?wd)" and wd_id = 0
        and inps = "[]" and inp = ?p1 and pre = "[]",
        THEN conjunct2, THEN conjunct2, THEN conjunct1]
      link_health_edge_triggered [where now = 0 and s = ?s1 and hal = ?hal
        and tick = 6050 and line = "''STM32_PONG''" and sw = "(comm_init, ?wd)" and wd_id = 0
        and inps = "[]" and inp = ?p1 and pre = "[]",
        THEN conjunct2, THEN conjunct2, THEN conjunct2, THEN conjunct1]
    by (simp add: comm_init_def)
  have o1: "probe_overdue ?hal ?p1 ?s0" by code_simp
  have o1': "probe_overdue ?hal ?p1 ?s0'" by code_simp
  have n1: "\<not> pong_received ?p1 ?s0" "\<not> pong_received ?p1 ?s0'"
    by (simp_all add: pong_received_def)
  have ok0: "uart_connection_ok ?s0" by (simp add: comm_init_def)
  note P = link_health_edge_triggered [where hal = ?hal and wd_id = 0 and inp = ?p1
      and sw = "(?s0, ?wd)" and inps = "[]" and pre = "[]" and s = ?s0 and now = 0
      and tick = 0 and line = "[]"]
  from P o1 n1 ok0
  have pass: "link_events (snd (comm_task_iteration ?hal 0 ?p1 (?s0, ?wd))) = [False]"
    by simp
  note P' = link_health_edge_triggered [where hal = ?hal and wd_id = 0 and inp = ?p1
      and sw = "(?s0', ?wd)" and inps = "[]" and pre = "[]" and s = ?s0 and now = 0
      and tick = 0 and line = "[]"]
  from P' o1'
  have cleared: "\<not> waiting_for_pong (fst (fst (comm_task_iteration ?hal 0 ?p1 (?s0', ?wd))))"
    by simp
  have h: "\<forall>(i, t) \<in> set (loop_passes ?hal 0 [?p1, ?p2, ?p3] (?s0, ?wd)). \<not> pong_received i t"
    by code_simp
  have e: "\<exists>(i, t) \<in> set (loop_passes ?hal 0 [?p1, ?p2, ?p3] (?s0, ?wd)). probe_overdue ?hal i t"
    by code_simp
  note D = link_health_edge_triggered [where hal = ?hal and wd_id = 0 and inp = ?p1
      and sw = "(?s0, ?wd)" and inps = "[?p1, ?p2, ?p3]" and pre = "[]" and s = ?s0 and now = 0
      and tick = 0 and line = "[]"]
  from D h e ok0
  have down: "link_events (snd (comm_task_run ?hal 0 [?p1, ?p2, ?p3] (?s0, ?wd))) = [False]"
    by (simp only: fst_conv if_True simp_thms)
  have h': "\<forall>(i, t) \<in> set (loop_passes ?hal 0 ?qs (?s1, ?wd)). \<not> probe_overdue ?hal i t"
    by code_simp
  have e': "\<exists>(i, t) \<in> set (loop_passes ?hal 0 ?qs (?s1, ?wd)). pong_received i t"
    by code_simp
  have ok1: "\<not> uart_connection_ok ?s1" by simp
  note U = link_health_edge_triggered [where hal = ?hal and wd_id = 0 and inp = ?p1
      and sw = "(?s1, ?wd)" and inps = ?qs and pre = "[]" and s = ?s0 and now = 0
      and tick = 0 and line = "[]"]
  from U h' e' ok1
  have up: "link_events (snd (comm_task_run ?hal 0 ?qs (?s1, ?wd))) = [True]"
    by (simp only: fst_conv if_True simp_thms)
  from old pass cleared down up show ?thesis
    by blast
qed

lemma send_with_retry_flag:
  "send_with_retry hal frame (s\<lparr>buffer_warning_shown := b\<rparr>) =
     (fst (send_with_retry hal frame s),
      (fst (snd (send_with_retry hal frame s)))\<lparr>buffer_warning_shown := b\<rparr>,
      snd (snd (send_with_retry hal frame s)))"
  by (simp add: send_with_retry_cases Let_def)

lemma led_switch_flag:
  "led_switch c (s\<lparr>buffer_warning_shown := b\<rparr>) =
     ((fst (led_switch c s))\<lparr>buffer_warning_shown := b\<rparr>, snd (led_switch c s))"
  by (simp add: led_switch_def led_effects_set_pattern_def)

lemma process_led_command_flag:
  "process_led_command hal tick line (s\<lparr>buffer_warning_shown := b\<rparr>) =
     ((fst (process_led_command hal tick line s))\<lparr>buffer_warning_shown := b\<rparr>,
      snd (process_led_command hal tick line s))"
  by (simp add: process_led_command_def split_beta Let_def send_with_retry_flag led_switch_flag)

lemma process_char_flag:
  "process_char hal tick c (s\<lparr>buffer_warning_shown := b\<rparr>) =
     ((fst (process_char hal tick c s))\<lparr>buffer_warning_shown := b\<rparr>,
      snd (process_char hal tick c s))"
proof -
  define X where "X = (rx_buffer s)[unat (rx_index s) := NUL]"
  have sw: "s\<lparr>buffer_warning_shown := b, rx_buffer := X\<rparr> =
            s\<lparr>rx_buffer := X, buffer_warning_shown := b\<rparr>"
    by (cases s) simp
  have rs: "\<And>t. t\<lparr>buffer_warning_shown := b, rx_index := 0\<rparr> =
                 t\<lparr>rx_index := 0, buffer_warning_shown := b\<rparr>"
    subgoal for t by (cases t) simp
    done
  show ?thesis
    by (simp add: process_char_def split_beta Let_def uart2_transmit_def X_def [symmetric]
        sw process_led_command_flag rs)
qed

lemma buffer_warning_state:
  "fst (buffer_warning avail s) = s\<lparr>buffer_warning_shown := buffer_warning_shown s \<or> avail > 64\<rparr>"
  by (simp add: buffer_warning_def)

lemma filter_absent: "count_list xs x = 0 \<Longrightarrow> filter (\<lambda>e. e \<noteq> x) xs = xs"
  by (induction xs) (auto split: if_splits)

lemma comm_task_iteration_soft:
  "fst (comm_task_iteration hal wd_id inp (s, wd)) =
     ((fst (fst (comm_task_iteration hal wd_id (inp\<lparr>bytes_available := 0\<rparr>) (s, wd))))
        \<lparr>buffer_warning_shown := buffer_warning_shown s \<or> above_high_water inp\<rparr>,
      snd (fst (comm_task_iteration hal wd_id (inp\<lparr>bytes_available := 0\<rparr>) (s, wd)))) \<and>
   filter (\<lambda>e. e \<noteq> Print Log_StreamBufferWarning) (snd (comm_task_iteration hal wd_id inp (s, wd))) =
     snd (comm_task_iteration hal wd_id (inp\<lparr>bytes_available := 0\<rparr>) (s, wd))"
proof -
  define s1 where "s1 = fst (ping_send hal (loop_tick inp) s)"
  define s2 where "s2 = fst (ping_timeout_check (loop_tick inp) s1)"
  define b where "b = (buffer_warning_shown s \<or> 64 < bytes_available inp)"
  have flag: "buffer_warning_shown s2 = buffer_warning_shown s"
    by (simp add: s2_def s1_def ping_send_warning ping_timeout_check_warning)
  have ping: "filter (\<lambda>e. e \<noteq> Print Log_StreamBufferWarning)
                (snd (ping_send hal (loop_tick inp) s)) = snd (ping_send hal (loop_tick inp) s)"
    by (rule filter_absent) (simp add: ping_send_warning)
  have tmo: "filter (\<lambda>e. e \<noteq> Print Log_StreamBufferWarning)
                (snd (ping_timeout_check (loop_tick inp) s1)) =
             snd (ping_timeout_check (loop_tick inp) s1)"
    by (rule filter_absent) (simp add: ping_timeout_check_warning)
  show ?thesis
  proof (cases "received inp")
    case None
    have "s2\<lparr>buffer_warning_shown := buffer_warning_shown s\<rparr> = s2"
      using flag by simp
    then show ?thesis
      using ping tmo
      by (simp add: comm_task_iteration_def split_beta Let_def above_high_water_def None
          s1_def [symmetric] s2_def [symmetric])
  next
    case (Some c)
    have s3: "fst (buffer_warning (bytes_available inp) s2) = s2\<lparr>buffer_warning_shown := b\<rparr>"
      by (simp add: buffer_warning_state flag b_def)
    have s3': "buffer_warning 0 s2 = (s2, [])"
      by (simp add: buffer_warning_def)
    have warn: "filter (\<lambda>e. e \<noteq> Print Log_StreamBufferWarning)
                  (snd (buffer_warning (bytes_available inp) s2)) = []"
      by (simp add: buffer_warning_def)
    have chr: "filter (\<lambda>e. e \<noteq> Print Log_StreamBufferWarning)
                  (snd (process_char hal (line_tick inp) c s2)) =
               snd (process_char hal (line_tick inp) c s2)"
      by (rule filter_absent) (simp add: process_char_warning)
    show ?thesis
      using s3 s3' warn ping tmo chr
      by (simp add: comm_task_iteration_def split_beta Let_def above_high_water_def Some
          s1_def [symmetric] s2_def [symmetric] process_char_flag b_def)
  qed
qed

text \<open>
  C9. Over any run of the task loop, the stream-buffer warning is logged at most once: once
  when some pass receives a byte and finds more than 64 bytes still in the buffer, and
  the flag was clear at the start (as it is at task start), never otherwise. It is logged
  in the first such pass, and in no pass before or after it. The warning changes nothing
  else: apart from the warning line and the flag, a pass does what it does with an empty
  stream buffer behind the byte it read.
\<close>

theorem buffer_warning_one_shot:
  "count_list (snd (comm_task_run hal wd_id inps sw)) (Print Log_StreamBufferWarning) =
     (if \<not> buffer_warning_shown (fst sw) \<and> (\<exists>inp \<in> set inps. above_high_water inp)
      then 1 else 0) \<and>
   count_list (snd (comm_task_iteration hal wd_id inp (fst (comm_task_run hal wd_id pre sw))))
       (Print Log_StreamBufferWarning) =
     (if above_high_water inp \<and> \<not> buffer_warning_shown (fst sw) \<and>
         \<not> (\<exists>earlier \<in> set pre. above_high_water earlier)
      then 1 else 0) \<and>
   \<not> buffer_warning_shown comm_init \<and>
   filter (\<lambda>e. e \<noteq> Print Log_StreamBufferWarning)
       (snd (comm_task_iteration hal wd_id inp sw)) =
     snd (comm_task_iteration hal wd_id (inp\<lparr>bytes_available := 0\<rparr>) sw) \<and>
   fst (comm_task_iteration hal wd_id inp sw) =
     ((fst (fst (comm_task_iteration hal wd_id (inp\<lparr>bytes_available := 0\<rparr>) sw)))
        \<lparr>buffer_warning_shown := buffer_warning_shown (fst sw) \<or> above_high_water inp\<rparr>,
      snd (fst (comm_task_iteration hal wd_id (inp\<lparr>bytes_available := 0\<rparr>) sw)))"
proof -
  obtain s' wd' where r: "fst (comm_task_run hal wd_id pre sw) = (s', wd')"
    by (cases "fst (comm_task_run hal wd_id pre sw)")
  have "buffer_warning_shown s' =
     (buffer_warning_shown (fst sw) \<or> (\<exists>inp \<in> set pre. above_high_water inp))"
    using comm_task_run_warning [of hal wd_id pre sw] by (simp add: r)
  then have counts:
    "count_list (snd (comm_task_run hal wd_id inps sw)) (Print Log_StreamBufferWarning) =
       (if \<not> buffer_warning_shown (fst sw) \<and> (\<exists>inp \<in> set inps. above_high_water inp)
        then 1 else 0) \<and>
     count_list (snd (comm_task_iteration hal wd_id inp (fst (comm_task_run hal wd_id pre sw))))
         (Print Log_StreamBufferWarning) =
       (if above_high_water inp \<and> \<not> buffer_warning_shown (fst sw) \<and>
           \<not> (\<exists>earlier \<in> set pre. above_high_water earlier)
        then 1 else 0) \<and>
     \<not> buffer_warning_shown comm_init"
    using comm_task_run_warning [of hal wd_id inps sw]
      comm_task_iteration_warning [of hal wd_id inp s' wd']
    by (simp add: r comm_init_def)
  obtain s wd where sw: "sw = (s, wd)"
    by (cases sw)
  show ?thesis
    using counts comm_task_iteration_soft [of hal wd_id inp s wd]
    by (simp only: sw fst_conv snd_conv) simp
qed

theorem buffer_warning_one_shot_witness:
  "count_list (snd (comm_task_run (\<lambda>k. HAL_OK) 0
      [\<lparr>loop_tick = 6000, received = Some CHR ''A'', bytes_available = 70,
        feed_tick = 6001, line_tick = 6001\<rparr>,
       \<lparr>loop_tick = 6002, received = Some CHR ''B'', bytes_available = 69,
        feed_tick = 6003, line_tick = 6003\<rparr>]
      (comm_init, fst watchdog_init))) (Print Log_StreamBufferWarning) = 1 \<and>
   count_list (snd (comm_task_iteration (\<lambda>k. HAL_OK) 0
      \<lparr>loop_tick = 6002, received = Some CHR ''B'', bytes_available = 69,
        feed_tick = 6003, line_tick = 6003\<rparr>
      (fst (comm_task_run (\<lambda>k. HAL_OK) 0
        [\<lparr>loop_tick = 6000, received = Some CHR ''A'', bytes_available = 70,
          feed_tick = 6001, line_tick = 6001\<rparr>]
        (comm_init, fst watchdog_init))))) (Print Log_StreamBufferWarning) = 0 \<and>
   filter (\<lambda>e. e \<noteq> Print Log_StreamBufferWarning)
     (snd (comm_task_iteration (\<lambda>k. HAL_OK) 0
        \<lparr>loop_tick = 6002, received = Some CHR ''B'', bytes_available = 69,
          feed_tick = 6003, line_tick = 6003\<rparr>
        (comm_init, fst watchdog_init))) =
   snd (comm_task_iteration (\<lambda>k. HAL_OK) 0
        \<lparr>loop_tick = 6002, received = Some CHR ''B'', bytes_available = 0,
          feed_tick = 6003, line_tick = 6003\<rparr>
        (comm_init, fst watchdog_init))"
  using buffer_warning_one_shot [of "\<lambda>k. HAL_OK" 0
      "[\<lparr>loop_tick = 6000, received = Some CHR ''A'', bytes_available = 70,
        feed_tick = 6001, line_tick = 6001\<rparr>,
       \<lparr>loop_tick = 6002, received = Some CHR ''B'', bytes_available = 69,
        feed_tick = 6003, line_tick = 6003\<rparr>]"
      "(comm_init, fst watchdog_init)"
      "\<lparr>loop_tick = 6002, received = Some CHR ''B'', bytes_available = 69,
        feed_tick = 6003, line_tick = 6003\<rparr>"
      "[\<lparr>loop_tick = 6000, received = Some CHR ''A'', bytes_available = 70,
          feed_tick = 6001, line_tick = 6001\<rparr>]"]
  by (simp add: above_high_water_def)

subsection \<open>Watchdog passes\<close>

declare watchdog_scan.simps [simp del]

lemma scan_step:
  "slot < 3 \<Longrightarrow> watchdog_scan slot now s =
     (let (s', ev) = check_entry slot now s; (s'', evs) = watchdog_scan (slot + 1) now s'
      in (s'', ev @ evs))"
  by (subst watchdog_scan.simps) (simp add: WATCHDOG_MAX_TASKS_def)

lemma scan_end: "watchdog_scan 3 now s = (s, [])"
  by (subst watchdog_scan.simps) (simp add: WATCHDOG_MAX_TASKS_def)

lemma scan_unrolled:
  "watchdog_scan 0 now s =
     (let (s1, e1) = check_entry 0 now s;
          (s2, e2) = check_entry 1 now s1;
          (s3, e3) = check_entry 2 now s2
      in (s3, e1 @ e2 @ e3))"
proof -
  have a: "watchdog_scan 2 now s = (let (s3, e3) = check_entry 2 now s in (s3, e3))" for s
    using scan_step [of 2 now s] by (simp add: scan_end split_beta)
  have b: "watchdog_scan 1 now s =
     (let (s2, e2) = check_entry 1 now s; (s3, e3) = check_entry 2 now s2 in (s3, e2 @ e3))" for s
    using scan_step [of 1 now s] by (simp add: a split_beta)
  show ?thesis
    using scan_step [of 0 now s] by (simp add: b split_beta)
qed


lemma check_entry_other:
  assumes "length (watchdog_tasks s) = 3" "slot < 3" "i < 3" "i \<noteq> slot"
  shows "watchdog_tasks (fst (check_entry i now s)) ! unat slot = watchdog_tasks s ! unat slot"
    and "alerts_for slot (snd (check_entry i now s)) = 0"
    and "length (watchdog_tasks (fst (check_entry i now s))) = 3"
    and "timeout_callback (fst (check_entry i now s)) = timeout_callback s"
  using assms slot_cases [of slot] slot_cases [of i]
  by (auto simp: check_entry_def Let_def alerts_for_def pdTICKS_TO_MS_ident)

lemma check_entry_self:
  assumes "length (watchdog_tasks s) = 3" "slot < 3"
  shows "watchdog_tasks (fst (check_entry slot now s)) ! unat slot =
           (let e = watchdog_tasks s ! unat slot in
            if registered e \<and> timeout_ms e < now - last_feed_tick e
            then e\<lparr>last_feed_tick := now\<rparr> else e)"
    and "alerts_for slot (snd (check_entry slot now s)) =
           (let e = watchdog_tasks s ! unat slot in
            if registered e \<and> timeout_ms e < now - last_feed_tick e then 1 else 0)"
    and "length (watchdog_tasks (fst (check_entry slot now s))) = 3"
    and "timeout_callback (fst (check_entry slot now s)) = timeout_callback s"
  using assms slot_cases [of slot]
  by (auto simp: check_entry_def Let_def alerts_for_def pdTICKS_TO_MS_ident)

lemma alerts_for_append: "alerts_for slot (xs @ ys) = alerts_for slot xs + alerts_for slot ys"
  by (simp add: alerts_for_def)

lemma iteration_slot:
  assumes len: "length (watchdog_tasks s) = 3" and slot: "slot < 3"
  shows "watchdog_tasks (fst (watchdog_task_iteration now s)) ! unat slot =
           (let e = watchdog_tasks s ! unat slot in
            if registered e \<and> timeout_ms e < now - last_feed_tick e
            then e\<lparr>last_feed_tick := now\<rparr> else e) \<and>
         alerts_for slot (snd (watchdog_task_iteration now s)) =
           (let e = watchdog_tasks s ! unat slot in
            if registered e \<and> timeout_ms e < now - last_feed_tick e then 1 else 0) \<and>
         length (watchdog_tasks (fst (watchdog_task_iteration now s))) = 3"
proof -
  let ?s1 = "fst (check_entry 0 now s)"
  let ?s2 = "fst (check_entry 1 now ?s1)"
  let ?s3 = "fst (check_entry 2 now ?s2)"
  have l1: "length (watchdog_tasks ?s1) = 3"
    using check_entry_self(3) [OF len, of 0 now] by simp
  have l2: "length (watchdog_tasks ?s2) = 3"
    using check_entry_self(3) [OF l1, of 1 now] by simp
  have it: "watchdog_task_iteration now s =
      (?s3, TaskDelayUntil (pdMS_TO_TICKS WATCHDOG_CHECK_PERIOD_MS) #
            snd (check_entry 0 now s) @ snd (check_entry 1 now ?s1) @ snd (check_entry 2 now ?s2))"
    by (simp add: watchdog_task_iteration_def scan_unrolled split_beta)
  have td: "alerts_for i (TaskDelayUntil t # evs) = alerts_for i evs" for i t evs
    by (simp add: alerts_for_def)
  from slot_cases [OF slot] show ?thesis
  proof (elim disjE)
    assume "slot = 0"
    then show ?thesis
      unfolding it
      using check_entry_self [OF len, of 0 now]
        check_entry_other [OF l1, of 0 1 now] check_entry_other [OF l2, of 0 2 now]
      by (simp add: td alerts_for_append)
  next
    assume "slot = 1"
    then show ?thesis
      unfolding it
      using check_entry_other [OF len, of 1 0 now]
        check_entry_self [OF l1, of 1 now] check_entry_other [OF l2, of 1 2 now]
      by (simp add: td alerts_for_append)
  next
    assume "slot = 2"
    then show ?thesis
      unfolding it
      using check_entry_other [OF len, of 2 0 now]
        check_entry_other [OF l1, of 2 1 now] check_entry_self [OF l2, of 2 now]
      by (simp add: td alerts_for_append)
  qed
qed

lemma upt_shift: "[1..<Suc (Suc n)] = 1 # map Suc [1..<Suc n]"
  by (simp add: upt_conv_Cons map_Suc_upt del: upt_Suc)

lemma watchdog_run_Cons:
  "watchdog_run (now # nows) s =
     (fst (watchdog_run nows (fst (watchdog_task_iteration now s))),
      snd (watchdog_task_iteration now s) #
      snd (watchdog_run nows (fst (watchdog_task_iteration now s))))"
  by (simp add: split_beta)

lemma elapsed_periodic:
  fixes t P :: "32 word"
  assumes "(r + 1) * unat P < 2 ^ 32" and "0 < unat P"
  shows "unat ((t + P) - (t - of_nat r * P)) = (r + 1) * unat P"
proof -
  have e: "(t + P) - (t - of_nat r * P) = of_nat (r + 1) * P"
    by (simp add: algebra_simps)
  have "(r + 1) * 1 \<le> (r + 1) * unat P"
    using assms(2) by (intro mult_le_mono2) simp
  then have "r + 1 \<le> (r + 1) * unat P"
    by simp
  with assms(1) have "r + 1 < 2 ^ 32" by simp
  then have u: "unat (of_nat (r + 1) :: 32 word) = r + 1"
    by (simp add: unat_of_nat del: of_nat_Suc of_nat_add)
  have "unat (of_nat (r + 1) * P) = unat (of_nat (r + 1) :: 32 word) * unat P"
    using assms(1) unat_mult_lem [of "of_nat (r + 1)" P] unfolding u by simp
  then show ?thesis
    unfolding e u .
qed


lemma periodic_alerts:
  assumes len: "length (watchdog_tasks s) = 3" and slot: "slot < 3"
    and reg: "registered (watchdog_tasks s ! unat slot)"
    and T: "timeout_ms (watchdog_tasks s ! unat slot) = T"
    and P: "0 < unat P" and bound: "(unat T div unat P + 1) * unat P < 2 ^ 32"
    and r: "r < unat T div unat P + 1"
    and L: "last_feed_tick (watchdog_tasks s ! unat slot) = t - of_nat r * P"
  shows "map (alerts_for slot) (snd (watchdog_run (periodic t P n) s)) =
         map (\<lambda>j. if (unat T div unat P + 1) dvd (r + j) then 1 else 0) [1..<Suc n]"
  using len reg T r L
proof (induction n arbitrary: s r t)
  case 0
  then show ?case by simp
next
  case (Suc n)
  let ?m = "unat T div unat P + 1"
  let ?e = "watchdog_tasks s ! unat slot"
  let ?now = "t + P"
  let ?s' = "fst (watchdog_task_iteration ?now s)"
  let ?alert = "T < ?now - last_feed_tick ?e"
  have rb: "(r + 1) * unat P < 2 ^ 32"
  proof -
    from Suc.prems(4) have "r + 1 \<le> ?m" by simp
    then have "(r + 1) * unat P \<le> ?m * unat P"
      by (rule mult_le_mono1)
    then show ?thesis
      using bound by (rule le_less_trans)
  qed
  have el: "unat (?now - last_feed_tick ?e) = (r + 1) * unat P"
    unfolding Suc.prems(5) by (rule elapsed_periodic [OF rb P])
  have al: "?alert \<longleftrightarrow> r + 1 = ?m"
  proof -
    have "?alert \<longleftrightarrow> unat T < (r + 1) * unat P"
      by (simp add: word_less_nat_alt el)
    also have "\<dots> \<longleftrightarrow> unat T div unat P < r + 1"
      using P by (simp add: div_less_iff_less_mult)
    also have "\<dots> \<longleftrightarrow> r + 1 = ?m"
      using Suc.prems(4) by auto
    finally show ?thesis .
  qed
  note it = iteration_slot [OF Suc.prems(1) slot, of ?now, unfolded Let_def]
  have e': "watchdog_tasks ?s' ! unat slot = (if ?alert then ?e\<lparr>last_feed_tick := ?now\<rparr> else ?e)"
    using it Suc.prems(2,3) by simp
  have head: "alerts_for slot (snd (watchdog_task_iteration ?now s)) = (if r + 1 = ?m then 1 else 0)"
    using it Suc.prems(2,3) al by simp
  have len': "length (watchdog_tasks ?s') = 3"
    using it by simp
  have reg': "registered (watchdog_tasks ?s' ! unat slot)"
    and T': "timeout_ms (watchdog_tasks ?s' ! unat slot) = T"
    using e' Suc.prems(2,3) by simp_all
  have run: "map (alerts_for slot) (snd (watchdog_run (periodic t P (Suc n)) s)) =
             (if r + 1 = ?m then 1 else 0) #
             map (alerts_for slot) (snd (watchdog_run (periodic ?now P n) ?s'))"
    by (simp only: periodic.simps watchdog_run_Cons snd_conv list.map head)
  show ?case
  proof (cases "r + 1 = ?m")
    case True
    have L': "last_feed_tick (watchdog_tasks ?s' ! unat slot) = ?now - of_nat 0 * P"
      using e' al True by simp
    have "map (alerts_for slot) (snd (watchdog_run (periodic ?now P n) ?s')) =
          map (\<lambda>j. if ?m dvd (0 + j) then 1 else 0) [1..<Suc n]"
      by (rule Suc.IH [OF len' reg' T' _ L']) simp
    also have "\<dots> = map (\<lambda>j. if ?m dvd (r + Suc j) then 1 else 0) [1..<Suc n]"
    proof -
      have "?m dvd (r + Suc j) \<longleftrightarrow> ?m dvd j" for j
        using True by (metis Suc_eq_plus1 add_Suc_right add_Suc dvd_add_triv_left_iff)
      then show ?thesis by simp
    qed
    finally show ?thesis
      unfolding run upt_shift using True by (simp add: comp_def del: upt_Suc)
  next
    case False
    with Suc.prems(4) have r': "r + 1 < ?m" by simp
    have L': "last_feed_tick (watchdog_tasks ?s' ! unat slot) = ?now - of_nat (r + 1) * P"
      using e' al False Suc.prems(5) by (simp add: algebra_simps)
    have nd: "\<not> ?m dvd (r + 1)"
      using r' by (simp add: nat_dvd_not_less)
    have "map (alerts_for slot) (snd (watchdog_run (periodic ?now P n) ?s')) =
          map (\<lambda>j. if ?m dvd (r + 1 + j) then 1 else 0) [1..<Suc n]"
      by (rule Suc.IH [OF len' reg' T' r' L'])
    then show ?thesis
      unfolding run upt_shift using False nd by (simp add: comp_def del: upt_Suc)
  qed
qed

lemma pdMS_TO_TICKS_period: "pdMS_TO_TICKS WATCHDOG_CHECK_PERIOD_MS = 1000"
  by (simp add: pdMS_TO_TICKS_def configTICK_RATE_HZ_def WATCHDOG_CHECK_PERIOD_MS_def)

text \<open>
  C5 (as amended). For a registered entry, one pass of the watchdog task logs exactly one
  alert when more than the timeout has elapsed since the entry's feed time, and none
  otherwise; with the alert it resets the feed time to the time of the pass. So for an
  entry that is not fed, passes one period (1000 ticks) apart after its feed time alert
  at every \<open>(timeout div 1000 + 1)\<close>-th pass and at no pass between: the first alert
  comes within one period after the timeout, and then one alert each time more than the
  timeout has elapsed again (every 6th pass for 5000 ms), until the entry is fed.
\<close>

theorem watchdog_alert_cadence:
  assumes "length (watchdog_tasks s) = unat WATCHDOG_MAX_TASKS"
    and "slot < WATCHDOG_MAX_TASKS"
    and "registered (watchdog_tasks s ! unat slot)"
  shows
   "(let e = watchdog_tasks s ! unat slot;
         hung = timeout_ms e < pdTICKS_TO_MS (now - last_feed_tick e)
     in alerts_for slot (snd (watchdog_task_iteration now s)) = (if hung then 1 else 0) \<and>
        watchdog_tasks (fst (watchdog_task_iteration now s)) ! unat slot =
          (if hung then e\<lparr>last_feed_tick := now\<rparr> else e)) \<and>
    ((unat (timeout_ms (watchdog_tasks s ! unat slot)) div 1000 + 1) * 1000 < 2 ^ 32 \<longrightarrow>
       map (alerts_for slot)
         (snd (watchdog_run
            (periodic (last_feed_tick (watchdog_tasks s ! unat slot))
               (pdMS_TO_TICKS WATCHDOG_CHECK_PERIOD_MS) n) s)) =
       map (\<lambda>j. if (unat (timeout_ms (watchdog_tasks s ! unat slot)) div 1000 + 1) dvd j
                 then 1 else 0) [1..<Suc n])"
proof -
  have len: "length (watchdog_tasks s) = 3"
    using assms(1) by (simp add: WATCHDOG_MAX_TASKS_def)
  have slot: "slot < 3"
    using assms(2) by (simp add: WATCHDOG_MAX_TASKS_def)
  let ?e = "watchdog_tasks s ! unat slot"
  have one: "alerts_for slot (snd (watchdog_task_iteration now s)) =
               (if timeout_ms ?e < now - last_feed_tick ?e then 1 else 0) \<and>
             watchdog_tasks (fst (watchdog_task_iteration now s)) ! unat slot =
               (if timeout_ms ?e < now - last_feed_tick ?e then ?e\<lparr>last_feed_tick := now\<rparr> else ?e)"
    using iteration_slot [OF len slot, of now] assms(3) by (simp add: Let_def)
  have per: "map (alerts_for slot)
         (snd (watchdog_run (periodic (last_feed_tick ?e) 1000 n) s)) =
       map (\<lambda>j. if (unat (timeout_ms ?e) div 1000 + 1) dvd j then 1 else 0) [1..<Suc n]"
    if b: "(unat (timeout_ms ?e) div 1000 + 1) * 1000 < 2 ^ 32"
  proof -
    have u: "unat (1000 :: 32 word) = 1000" by simp
    have "map (alerts_for slot) (snd (watchdog_run (periodic (last_feed_tick ?e) 1000 n) s)) =
          map (\<lambda>j. if (unat (timeout_ms ?e) div unat (1000 :: 32 word) + 1) dvd (0 + j)
                    then 1 else 0) [1..<Suc n]"
      by (rule periodic_alerts [OF len slot assms(3) refl]) (use b in \<open>simp_all add: u\<close>)
    then show ?thesis by (simp add: u)
  qed
  show ?thesis
    using one per by (simp add: Let_def pdTICKS_TO_MS_ident pdMS_TO_TICKS_period)
qed

theorem watchdog_alert_cadence_witness:
  "alerts_for 0 (snd (watchdog_task_iteration 6000
      \<lparr>watchdog_tasks =
         [\<lparr>task_name = replicate 16 NUL, timeout_ms = 5000, last_feed_tick = 0, registered = True\<rparr>,
          \<lparr>task_name = replicate 16 NUL, timeout_ms = 0, last_feed_tick = 0, registered = False\<rparr>,
          \<lparr>task_name = replicate 16 NUL, timeout_ms = 0, last_feed_tick = 0, registered = False\<rparr>],
       num_registered = 1, timeout_callback = False\<rparr>)) = 1 \<and>
   map (alerts_for 0) (snd (watchdog_run (periodic 0 1000 12)
      \<lparr>watchdog_tasks =
         [\<lparr>task_name = replicate 16 NUL, timeout_ms = 5000, last_feed_tick = 0, registered = True\<rparr>,
          \<lparr>task_name = replicate 16 NUL, timeout_ms = 0, last_feed_tick = 0, registered = False\<rparr>,
          \<lparr>task_name = replicate 16 NUL, timeout_ms = 0, last_feed_tick = 0, registered = False\<rparr>],
       num_registered = 1, timeout_callback = False\<rparr>)) =
     [0, 0, 0, 0, 0, 1, 0, 0, 0, 0, 0, 1]"
proof -
  let ?s = "\<lparr>watchdog_tasks =
         [\<lparr>task_name = replicate 16 NUL, timeout_ms = 5000, last_feed_tick = 0, registered = True\<rparr>,
          \<lparr>task_name = replicate 16 NUL, timeout_ms = 0, last_feed_tick = 0, registered = False\<rparr>,
          \<lparr>task_name = replicate 16 NUL, timeout_ms = 0, last_feed_tick = 0, registered = False\<rparr>],
       num_registered = 1, timeout_callback = False\<rparr>"
  have h1: "length (watchdog_tasks ?s) = unat WATCHDOG_MAX_TASKS"
    and h2: "0 < WATCHDOG_MAX_TASKS"
    and h3: "registered (watchdog_tasks ?s ! unat (0 :: 8 word))"
    by (simp_all add: WATCHDOG_MAX_TASKS_def)
  have b: "(unat (5000 :: 32 word) div 1000 + 1) * 1000 < (2 :: nat) ^ 32"
    by simp
  have p: "map (\<lambda>j. if (unat (5000 :: 32 word) div 1000 + 1) dvd j then 1 else 0 :: nat)
             [1..<Suc 12] = [0, 0, 0, 0, 0, 1, 0, 0, 0, 0, 0, 1]"
    by code_simp
  note T = watchdog_alert_cadence [OF h1 h2 h3, of 6000 12]
  from T have "alerts_for 0 (snd (watchdog_task_iteration 6000 ?s)) = 1"
    by (simp add: Let_def pdTICKS_TO_MS_ident)
  moreover from T b
  have "map (alerts_for 0) (snd (watchdog_run (periodic 0 1000 12) ?s)) =
        map (\<lambda>j. if (unat (5000 :: 32 word) div 1000 + 1) dvd j then 1 else 0 :: nat) [1..<Suc 12]"
    by (simp add: pdMS_TO_TICKS_period del: upt_Suc)
  ultimately show ?thesis
    unfolding p by simp
qed

text \<open>
  The claim as first stated has one alert in every pass once the timeout has elapsed. With
  a timeout of 5000 ms and the last feed at tick 0, the pass at tick 6000 alerts and
  resets the timer, and the pass at tick 7000 logs nothing.
\<close>

theorem watchdog_alert_not_every_period_counterexample:
  "map (alerts_for 0)
     (snd (watchdog_run [6000, 7000]
        (fst (snd (watchdog_register ''ESP8266_Comm'' 5000 0 (fst watchdog_init)))))) = [1, 0]"
  by code_simp


subsection \<open>Timeouts of blocking calls\<close>


















lemma returns_within_Nil: "returns_within n []"
  by (simp add: returns_within_def)

lemma returns_within_append:
  "returns_within a xs \<Longrightarrow> returns_within b ys \<Longrightarrow> returns_within (a + b) (xs @ ys)"
  by (simp add: returns_within_def)

lemma returns_within_Cons:
  "time_limit ev = Some t \<Longrightarrow> returns_within b evs \<Longrightarrow> returns_within (t + b) (ev # evs)"
  by (simp add: returns_within_def)

lemma returns_within_mono: "returns_within a xs \<Longrightarrow> a \<le> b \<Longrightarrow> returns_within b xs"
  by (simp add: returns_within_def)


























end
